theory Spec2Isabelle
  imports Complex_Main "HOL-Library.AList"
begin

section \<open>The autonomy controller (src/autonomy/autonomy-controller.ts)\<close>

text \<open>
  A shallow embedding of the class \<open>AutonomyController\<close>. Conventions:
  \<^item> a JavaScript \<open>number\<close> is the \<open>real\<close> it denotes (NaN and the infinities are not
    inputs of the model); counters that only ever grow by one are \<open>nat\<close>. The sums of the
    ledger (\<open>dailySpent + cost\<close>, \<open>currentSpent + estimated_cost\<close>, \<open>count + 1\<close>) are sums of
    doubles: they are computed by \<open>num_add\<close>, the addition that the platform supplies;
  \<^item> a string is the list of the bytes of its UTF-8 encoding; on well-formed strings
    \<open>includes\<close> on these bytes agrees with \<open>includes\<close> on code units.
    \<open>String.prototype.toLowerCase\<close> is the case conversion that the platform supplies;
  \<^item> an optional field \<open>f?: T\<close> is a \<open>T option\<close>; JavaScript truthiness of an optional
    number is "present and not 0", of an optional string "present and not empty";
  \<^item> \<open>Date.now()\<close> is the parameter \<open>now\<close> (milliseconds, a \<open>nat\<close>), one value per call of an
    operation; the random suffix of an approval id is the parameter \<open>rnd\<close>;
  \<^item> a \<open>Map\<close> is an association list in insertion order (\<open>map_of\<close> reads it,
    \<open>AList.update\<close> is \<open>set\<close>, \<open>AList.delete\<close> is \<open>delete\<close>);
  \<^item> \<open>ApprovalRequest\<close> objects are mutated in place while the caller of
    \<open>requestApproval\<close> still holds them, so they live in a store (\<open>heap\<close>, a list indexed by
    address) and \<open>pendingApprovals\<close> maps an id to an address; every address in the map is
    allocated in every reachable state (lemma \<open>pending_wf_reachable\<close>);
  \<^item> \<open>this.emit(name, payload)\<close> appends the event to the log \<open>emitted\<close> and then runs the
    registered listeners; a listener is modelled by whether it returns or throws (it does not
    call back into the controller). As in Node's \<open>EventEmitter\<close>, emitting \<open>'error'\<close> with no
    listener registered throws;
  \<^item> a thrown exception is a value \<open>Inl e\<close>; the state at the throw is returned with it,
    because the mutations made before the throw stay;
  \<^item> every operation runs to completion without interleaving with another one.
\<close>

subsection \<open>Enumerations\<close>

datatype AutonomyLevel = SUPERVISED | SEMI_AUTONOMOUS | AUTONOMOUS | RESTRICTED

datatype TriggerType =
  SPENDING_THRESHOLD | CONTENT_FLAG | REPUTATION_DROP | ERROR_RATE | SUSPICIOUS_ACTIVITY
  | MANUAL_TRIGGER

datatype EscalationAction =
  PAUSE_AGENT | REQUEST_APPROVAL | NOTIFY_OWNER | REDUCE_AUTONOMY | LOG_INCIDENT

datatype DecisionType =
  CONTENT_CREATION | FINANCIAL_TRANSACTION | PLATFORM_INTERACTION | LEARNING_ADAPTATION
  | SERVICE_OFFERING | GOVERNANCE_PARTICIPATION | EMERGENCY_ACTION

datatype RiskLevel = LOW | MEDIUM | HIGH | CRITICAL

text \<open>The literal unions \<open>'low' | 'medium' | 'high' | 'critical'\<close> (priority, urgency),
  \<open>'minimal' | ...\<close> (impact), the request status and the violation severity.\<close>

datatype Grade = G_low | G_medium | G_high | G_critical

datatype Impact = I_minimal | I_moderate | I_significant | I_major

datatype Status = St_pending | St_approved | St_denied | St_timeout

datatype Severity = Sev_warning | Sev_error | Sev_critical

text \<open>The string value of a \<open>TriggerType\<close> member, as \<open>${trigger.type}\<close> prints it.\<close>

fun TriggerType_value :: "TriggerType \<Rightarrow> string" where
  "TriggerType_value SPENDING_THRESHOLD = ''spending_threshold''"
| "TriggerType_value CONTENT_FLAG = ''content_flag''"
| "TriggerType_value REPUTATION_DROP = ''reputation_drop''"
| "TriggerType_value ERROR_RATE = ''error_rate''"
| "TriggerType_value SUSPICIOUS_ACTIVITY = ''suspicious_activity''"
| "TriggerType_value MANUAL_TRIGGER = ''manual_trigger''"

subsection \<open>Interfaces\<close>

record SpendingLimits =
  dailyLimit :: real
  perTransactionLimit :: real
  platformLimits :: "(string \<times> real) list"
  approvalRequiredAbove :: real
  currencyLimits :: "(string \<times> real) list"

text \<open>\<open>platform_specific_rules: Record<string, any>\<close> is never read by the controller and is
  left out.\<close>

record InteractionRules =
  max_posts_per_hour :: real
  max_posts_per_day :: real
  max_replies_per_thread :: real
  max_dm_conversations :: real
  cooldown_between_posts :: real
  forbidden_content_types :: "string list"
  required_disclaimers :: "string list"

record EscalationTrigger =
  t_type :: TriggerType
  condition :: string
  threshold :: real
  action :: EscalationAction
  priority :: Grade

record AutonomyConfig =
  level :: AutonomyLevel
  spending_limits :: SpendingLimits
  interaction_rules :: InteractionRules
  escalation_triggers :: "EscalationTrigger list"
  approval_timeout :: real
  emergency_contacts :: "string list"

record DecisionContext =
  platform :: "string option"
  target :: "string option"
  amount :: "real option"
  currency :: "string option"
  urgency :: Grade
  potential_impact :: Impact
  reversible :: bool
  precedent_exists :: bool

record Decision =
  d_id :: string
  d_type :: DecisionType
  description :: string
  ctx :: DecisionContext
  risk_level :: RiskLevel
  estimated_cost :: "real option"
  estimated_revenue :: "real option"
  requires_approval :: "bool option"
  timestamp :: real
  confidence :: real

text \<open>A message built by a template literal: its text with the interpolated numbers kept
  as numbers (how JavaScript prints a number is not modelled).\<close>

datatype piece = Lit string | Num real

type_synonym message = "piece list"

record ValidationResult =
  approved :: bool
  reason :: "message option"
  conditions :: "string list option"
  escalation_required :: "bool option"
  vr_approval_timeout :: "real option"

record ApprovalRequest =
  r_id :: string
  decision :: Decision
  requested_at :: real
  timeout_at :: real
  status :: Status
  approver :: "string option"
  response_time :: "real option"
  r_notes :: "string option"

record GuardrailViolation =
  v_type :: string
  severity :: Severity
  v_description :: string
  v_timestamp :: real
  decision_id :: "string option"
  action_taken :: string

record AutonomyMetrics =
  decisions_made :: nat
  approvals_requested :: nat
  approval_rate :: real
  average_response_time :: real
  violations :: nat
  escalations :: nat
  autonomy_score :: real

subsection \<open>Exceptions, events and listeners\<close>

datatype exn =
  InvalidApprovalRequest
  | ListenerThrew string
  | UnhandledErrorEvent

datatype Event =
  Ev_error exn Decision
  | Ev_approval_requested string Decision real
  | Ev_approval_timeout string Decision
  | Ev_approval_processed string bool string real
  | Ev_autonomy_level_changed AutonomyLevel AutonomyLevel string real
  | Ev_spending_limits_updated SpendingLimits
  | Ev_interaction_rules_updated InteractionRules
  | Ev_escalation_trigger_added EscalationTrigger
  | Ev_escalation_trigger_removed TriggerType
  | Ev_approval_cancelled string string
  | Ev_emergency_stop_triggered string real
  | Ev_owner_notification TriggerType Decision Grade
  | Ev_decision_approved Decision
  | Ev_guardrail_violation GuardrailViolation

fun event_name :: "Event \<Rightarrow> string" where
  "event_name (Ev_error e d) = ''error''"
| "event_name (Ev_approval_requested i d t) = ''approval_requested''"
| "event_name (Ev_approval_timeout i d) = ''approval_timeout''"
| "event_name (Ev_approval_processed i a p r) = ''approval_processed''"
| "event_name (Ev_autonomy_level_changed l l' r t) = ''autonomy_level_changed''"
| "event_name (Ev_spending_limits_updated l) = ''spending_limits_updated''"
| "event_name (Ev_interaction_rules_updated r) = ''interaction_rules_updated''"
| "event_name (Ev_escalation_trigger_added t) = ''escalation_trigger_added''"
| "event_name (Ev_escalation_trigger_removed t) = ''escalation_trigger_removed''"
| "event_name (Ev_approval_cancelled i r) = ''approval_cancelled''"
| "event_name (Ev_emergency_stop_triggered r t) = ''emergency_stop_triggered''"
| "event_name (Ev_owner_notification t d p) = ''owner_notification''"
| "event_name (Ev_decision_approved d) = ''decision_approved''"
| "event_name (Ev_guardrail_violation v) = ''guardrail_violation''"

datatype listener = Returns | Throws

text \<open>What the platform supplies to the controller: the listeners registered on it, by
  event name, in registration order; the addition of two numbers (the exact sum rounded to a
  double; an overflow is a value beyond every double); and \<open>String.prototype.toLowerCase\<close>
  (the Unicode case conversion). The last two are parameters: every property below holds
  for whatever they compute.\<close>

record Env =
  listeners :: "string \<Rightarrow> listener list"
  num_add :: "real \<Rightarrow> real \<Rightarrow> real"
  toLowerCase :: "string \<Rightarrow> string"

subsection \<open>The controller's fields\<close>

record State =
  config :: AutonomyConfig
  currentSpending :: "(string \<times> real) list"
  interactionCounts :: "(string \<times> real) list"
  pendingApprovals :: "(string \<times> nat) list"
  heap :: "ApprovalRequest list"
  violationHistory :: "GuardrailViolation list"
  decisionHistory :: "Decision list"
  metrics :: AutonomyMetrics
  timers :: "(string \<times> Decision \<times> real) list"
  emitted :: "Event list"

type_synonym 'a outcome = "(exn + 'a) \<times> State"

subsection \<open>JavaScript helpers\<close>

definition num_or_zero :: "real option \<Rightarrow> real" where
  \<comment> \<open>\<open>x || 0\<close> for an optional number\<close>
  "num_or_zero x = (case x of None \<Rightarrow> 0 | Some v \<Rightarrow> v)"

definition truthy_num :: "real option \<Rightarrow> bool" where
  "truthy_num x = (case x of None \<Rightarrow> False | Some v \<Rightarrow> v \<noteq> 0)"

definition truthy_str :: "string option \<Rightarrow> bool" where
  "truthy_str x = (case x of None \<Rightarrow> False | Some v \<Rightarrow> v \<noteq> [])"

definition str_or :: "string option \<Rightarrow> string \<Rightarrow> string" where
  \<comment> \<open>\<open>x || dflt\<close> for an optional string\<close>
  "str_or x dflt = (case x of None \<Rightarrow> dflt | Some v \<Rightarrow> if v = [] then dflt else v)"

text \<open>\<open>toLowerCase\<close> on ASCII text, where it only folds \<open>A\<close> to \<open>Z\<close>: the case conversion
  of the example environments.\<close>

definition ascii_toLowerCase_char :: "char \<Rightarrow> char" where
  "ascii_toLowerCase_char c =
     (if 65 \<le> (of_char c :: nat) \<and> (of_char c :: nat) \<le> 90
      then char_of ((of_char c :: nat) + 32) else c)"

definition ascii_toLowerCase :: "string \<Rightarrow> string" where
  "ascii_toLowerCase xs = map ascii_toLowerCase_char xs"

fun startsWith :: "string \<Rightarrow> string \<Rightarrow> bool" where
  "startsWith hay [] = True"
| "startsWith [] (n # ns) = False"
| "startsWith (h # hs) (n # ns) = (h = n \<and> startsWith hs ns)"

fun str_includes :: "string \<Rightarrow> string \<Rightarrow> bool" where
  \<comment> \<open>\<open>hay.includes(needle)\<close>\<close>
  "str_includes [] needle = (needle = [])"
| "str_includes (h # hs) needle = (startsWith (h # hs) needle \<or> str_includes hs needle)"

fun string_of_nat :: "nat \<Rightarrow> string" where
  \<comment> \<open>the decimal digits of a non-negative integer\<close>
  "string_of_nat n =
     (if n < 10 then [char_of (48 + n)]
      else string_of_nat (n div 10) @ [char_of (48 + n mod 10)])"

declare string_of_nat.simps [simp del]

definition hourlyKey :: "string \<Rightarrow> nat \<Rightarrow> string" where
  \<comment> \<open>\<open>`${platform}_${Math.floor(Date.now() / (60 * 60 * 1000))}`\<close>\<close>
  "hourlyKey p now = p @ ''_'' @ string_of_nat (now div 3600000)"

subsection \<open>Emitting events\<close>

definition emit_throws :: "Env \<Rightarrow> string \<Rightarrow> exn option" where
  "emit_throws env name =
     (if listeners env name = [] then
        (if name = ''error'' then Some UnhandledErrorEvent else None)
      else if Throws \<in> set (listeners env name) then Some (ListenerThrew name) else None)"

definition emit :: "Env \<Rightarrow> Event \<Rightarrow> State \<Rightarrow> unit outcome" where
  "emit env e s =
     (case emit_throws env (event_name e) of
        Some x \<Rightarrow> (Inl x, s\<lparr>emitted := emitted s @ [e]\<rparr>)
      | None \<Rightarrow> (Inr (), s\<lparr>emitted := emitted s @ [e]\<rparr>))"

subsection \<open>Private helpers\<close>

definition createValidationResult ::
  "bool \<Rightarrow> message option \<Rightarrow> bool option \<Rightarrow> State \<Rightarrow> ValidationResult" where
  "createValidationResult a r e s =
     \<lparr>approved = a, reason = r, conditions = None, escalation_required = e,
      vr_approval_timeout =
        (if e = Some True then Some (approval_timeout (config s)) else None)\<rparr>"

definition isDecisionTypeAllowed :: "State \<Rightarrow> DecisionType \<Rightarrow> bool" where
  "isDecisionTypeAllowed s t =
     (case level (config s) of
        RESTRICTED \<Rightarrow> t \<in> set [LEARNING_ADAPTATION]
      | SUPERVISED \<Rightarrow> t \<in> set [LEARNING_ADAPTATION, PLATFORM_INTERACTION]
      | SEMI_AUTONOMOUS \<Rightarrow> t \<noteq> FINANCIAL_TRANSACTION
      | AUTONOMOUS \<Rightarrow> True)"

definition validateSpending :: "Env \<Rightarrow> Decision \<Rightarrow> State \<Rightarrow> ValidationResult" where
  "validateSpending env d s =
     (let cost = num_or_zero (estimated_cost d);
          cur = str_or (currency (ctx d)) ''SEI'';
          lim = spending_limits (config s);
          dailySpent = num_or_zero (map_of (currentSpending s) cur)
      in if cost > perTransactionLimit lim then
           createValidationResult False
             (Some [Lit ''Transaction exceeds per-transaction limit ('', Num cost,
                    Lit '' > '', Num (perTransactionLimit lim), Lit '')''])
             (Some True) s
         else if num_add env dailySpent cost > dailyLimit lim then
           createValidationResult False
             (Some [Lit ''Transaction would exceed daily limit ('',
                    Num (num_add env dailySpent cost),
                    Lit '' > '', Num (dailyLimit lim), Lit '')''])
             (Some True) s
         else if cost > approvalRequiredAbove lim then
           createValidationResult False
             (Some [Lit ''Transaction exceeds approval threshold ('', Num cost,
                    Lit '' > '', Num (approvalRequiredAbove lim), Lit '')''])
             (Some True) s
         else createValidationResult True None None s)"

definition validateInteractionLimits :: "nat \<Rightarrow> Decision \<Rightarrow> State \<Rightarrow> ValidationResult" where
  "validateInteractionLimits now d s =
     (let hourlyCount =
            num_or_zero
              (map_of (interactionCounts s) (hourlyKey (str_or (platform (ctx d)) ''default'') now))
      in if hourlyCount \<ge> max_posts_per_hour (interaction_rules (config s)) then
           createValidationResult False (Some [Lit ''Hourly interaction limit exceeded''])
             (Some False) s
         else createValidationResult True None None s)"

definition recordViolation :: "Env \<Rightarrow> GuardrailViolation \<Rightarrow> State \<Rightarrow> unit outcome" where
  "recordViolation env v s =
     (case emit env (Ev_guardrail_violation v)
             (s\<lparr>violationHistory := violationHistory s @ [v],
                metrics := (metrics s)\<lparr>violations := Suc (violations (metrics s))\<rparr>\<rparr>) of
        (Inl e, s1) \<Rightarrow> (Inl e, s1)
      | (Inr u, s1) \<Rightarrow>
          (Inr (),
           if length (violationHistory s1) > 1000
           then s1\<lparr>violationHistory :=
                     drop (length (violationHistory s1) - 500) (violationHistory s1)\<rparr>
           else s1))"

definition validateContent ::
  "Env \<Rightarrow> nat \<Rightarrow> Decision \<Rightarrow> State \<Rightarrow> ValidationResult outcome" where
  "validateContent env now d s =
     (case List.find (\<lambda>forbidden. str_includes (toLowerCase env (description d))
                                 (toLowerCase env forbidden))
             (forbidden_content_types (interaction_rules (config s))) of
        None \<Rightarrow> (Inr (createValidationResult True None None s), s)
      | Some forbidden \<Rightarrow>
          (case recordViolation env
                  \<lparr>v_type = ''content_policy'', severity = Sev_error,
                   v_description = ''Content contains forbidden type: '' @ forbidden,
                   v_timestamp = real now, decision_id = Some (d_id d),
                   action_taken = ''blocked''\<rparr> s of
             (Inl e, s1) \<Rightarrow> (Inl e, s1)
           | (Inr u, s1) \<Rightarrow>
               (Inr (createValidationResult False
                       (Some [Lit (''Content contains forbidden type: '' @ forbidden)]) None s1),
                s1)))"

definition validateRiskLevel :: "Decision \<Rightarrow> State \<Rightarrow> ValidationResult" where
  "validateRiskLevel d s =
     (case level (config s) of
        RESTRICTED \<Rightarrow>
          if risk_level d \<noteq> LOW then
            createValidationResult False
              (Some [Lit ''Only low-risk decisions allowed in restricted mode'']) (Some True) s
          else createValidationResult True None None s
      | SUPERVISED \<Rightarrow>
          if risk_level d \<in> set [HIGH, CRITICAL] then
            createValidationResult False
              (Some [Lit ''High/critical risk decisions require approval'']) (Some True) s
          else createValidationResult True None None s
      | SEMI_AUTONOMOUS \<Rightarrow>
          if risk_level d = CRITICAL then
            createValidationResult False
              (Some [Lit ''Critical risk decisions require approval'']) (Some True) s
          else createValidationResult True None None s
      | AUTONOMOUS \<Rightarrow> createValidationResult True None None s)"

definition evaluateTrigger :: "EscalationTrigger \<Rightarrow> Decision \<Rightarrow> bool" where
  "evaluateTrigger t d =
     (case t_type t of
        SPENDING_THRESHOLD \<Rightarrow> num_or_zero (estimated_cost d) > threshold t
      | REPUTATION_DROP \<Rightarrow> False
      | ERROR_RATE \<Rightarrow> False
      | _ \<Rightarrow> False)"

definition calculateInitialAutonomyScore :: "State \<Rightarrow> real" where
  "calculateInitialAutonomyScore s =
     (case level (config s) of
        RESTRICTED \<Rightarrow> 25 | SUPERVISED \<Rightarrow> 50 | SEMI_AUTONOMOUS \<Rightarrow> 75 | AUTONOMOUS \<Rightarrow> 100)"

definition calculateAutonomyScore :: "State \<Rightarrow> real" where
  "calculateAutonomyScore s =
     (let score0 = calculateInitialAutonomyScore s;
          score1 = (if approval_rate (metrics s) > 8 / 10 then score0 + 10 else score0);
          score2 = (if violations (metrics s) < 5 then score1 + 10 else score1);
          score3 = (if escalations (metrics s) = 0 then score2 + 5 else score2)
      in min 100 (max 0 score3))"

definition getReducedAutonomyLevel :: "State \<Rightarrow> AutonomyLevel" where
  "getReducedAutonomyLevel s =
     (case level (config s) of
        AUTONOMOUS \<Rightarrow> SEMI_AUTONOMOUS
      | SEMI_AUTONOMOUS \<Rightarrow> SUPERVISED
      | SUPERVISED \<Rightarrow> RESTRICTED
      | _ \<Rightarrow> RESTRICTED)"

definition adjustLimitsForLevel :: "AutonomyLevel \<Rightarrow> State \<Rightarrow> State" where
  "adjustLimitsForLevel l s =
     (let lim = spending_limits (config s); rules = interaction_rules (config s)
      in case l of
        RESTRICTED \<Rightarrow>
          s\<lparr>config := (config s)
              \<lparr>spending_limits := lim\<lparr>dailyLimit := min 10 (dailyLimit lim)\<rparr>,
               interaction_rules :=
                 rules\<lparr>max_posts_per_hour := min 2 (max_posts_per_hour rules)\<rparr>\<rparr>\<rparr>
      | SUPERVISED \<Rightarrow>
          s\<lparr>config := (config s)
              \<lparr>spending_limits := lim\<lparr>dailyLimit := min 100 (dailyLimit lim)\<rparr>,
               interaction_rules :=
                 rules\<lparr>max_posts_per_hour := min 10 (max_posts_per_hour rules)\<rparr>\<rparr>\<rparr>
      | _ \<Rightarrow> s)"

subsection \<open>Autonomy level and emergency stop\<close>

definition updateAutonomyLevel ::
  "Env \<Rightarrow> nat \<Rightarrow> AutonomyLevel \<Rightarrow> string \<Rightarrow> State \<Rightarrow> unit outcome" where
  "updateAutonomyLevel env now newLevel why s =
     (let oldLevel = level (config s);
          s1 = adjustLimitsForLevel newLevel (s\<lparr>config := (config s)\<lparr>level := newLevel\<rparr>\<rparr>)
      in case emit env (Ev_autonomy_level_changed oldLevel newLevel why (real now)) s1 of
           (Inl e, s2) \<Rightarrow> (Inl e, s2)
         | (Inr u, s2) \<Rightarrow>
             (Inr (),
              s2\<lparr>metrics := (metrics s2)\<lparr>autonomy_score := calculateAutonomyScore s2\<rparr>\<rparr>))"

fun cancelPending :: "Env \<Rightarrow> (string \<times> nat) list \<Rightarrow> State \<Rightarrow> unit outcome" where
  \<comment> \<open>the loop of \<open>triggerEmergencyStop\<close> over the entries of \<open>pendingApprovals\<close>\<close>
  "cancelPending env [] s = (Inr (), s)"
| "cancelPending env ((i, a) # rest) s =
     (case emit env (Ev_approval_cancelled i ''emergency_stop'')
             (s\<lparr>heap := (heap s)[a := (heap s ! a)\<lparr>status := St_denied\<rparr>]\<rparr>) of
        (Inl e, s1) \<Rightarrow> (Inl e, s1)
      | (Inr u, s1) \<Rightarrow> cancelPending env rest s1)"

definition triggerEmergencyStop :: "Env \<Rightarrow> nat \<Rightarrow> string \<Rightarrow> State \<Rightarrow> unit outcome" where
  "triggerEmergencyStop env now why s =
     (case updateAutonomyLevel env now RESTRICTED (''Emergency stop: '' @ why) s of
        (Inl e, s1) \<Rightarrow> (Inl e, s1)
      | (Inr u, s1) \<Rightarrow>
          (case cancelPending env (pendingApprovals s1) s1 of
             (Inl e, s2) \<Rightarrow> (Inl e, s2)
           | (Inr u, s2) \<Rightarrow>
               emit env (Ev_emergency_stop_triggered why (real now))
                 (s2\<lparr>pendingApprovals := []\<rparr>)))"

subsection \<open>Approval workflow\<close>

text \<open>\<open>requestApproval\<close> returns the address of the new request object. The deferred
  callback is recorded in \<open>timers\<close> with the time it is due; it is the operation
  \<open>approvalTimeoutCallback\<close> below. When a listener of \<open>'approval_requested'\<close> throws, the
  callback is never scheduled.\<close>

definition requestApproval ::
  "Env \<Rightarrow> nat \<Rightarrow> string \<Rightarrow> Decision \<Rightarrow> State \<Rightarrow> nat outcome" where
  "requestApproval env now rnd d s =
     (let approvalId = ''approval_'' @ string_of_nat now @ ''_'' @ rnd;
          request = \<lparr>r_id = approvalId, decision = d, requested_at = real now,
                     timeout_at = real now + approval_timeout (config s) * 1000,
                     status = St_pending, approver = None, response_time = None,
                     r_notes = None\<rparr>;
          a = length (heap s);
          s1 = s\<lparr>heap := heap s @ [request],
                 pendingApprovals := AList.update approvalId a (pendingApprovals s),
                 metrics := (metrics s)
                   \<lparr>approvals_requested := Suc (approvals_requested (metrics s))\<rparr>\<rparr>
      in case emit env (Ev_approval_requested approvalId d (approval_timeout (config s))) s1 of
           (Inl e, s2) \<Rightarrow> (Inl e, s2)
         | (Inr u, s2) \<Rightarrow>
             (Inr a,
              s2\<lparr>timers := timers s2 @
                     [(approvalId, d, real now + approval_timeout (config s) * 1000)]\<rparr>))"

definition approvalTimeoutCallback :: "Env \<Rightarrow> string \<Rightarrow> Decision \<Rightarrow> State \<Rightarrow> unit outcome" where
  \<comment> \<open>the function passed to \<open>setTimeout\<close> in \<open>requestApproval\<close>\<close>
  "approvalTimeoutCallback env approvalId d s =
     (case map_of (pendingApprovals s) approvalId of
        None \<Rightarrow> (Inr (), s)
      | Some a \<Rightarrow>
          if status (heap s ! a) = St_pending then
            emit env (Ev_approval_timeout approvalId d)
              (s\<lparr>heap := (heap s)[a := (heap s ! a)\<lparr>status := St_timeout\<rparr>]\<rparr>)
          else (Inr (), s))"

definition updateApprovalRate :: "bool \<Rightarrow> State \<Rightarrow> State" where
  "updateApprovalRate ok s =
     (let totalRequests = real (approvals_requested (metrics s));
          currentApprovals = approval_rate (metrics s) * (totalRequests - 1)
      in s\<lparr>metrics := (metrics s)
            \<lparr>approval_rate := (currentApprovals + (if ok then 1 else 0)) / totalRequests\<rparr>\<rparr>)"

definition recordApprovedDecision :: "Env \<Rightarrow> nat \<Rightarrow> Decision \<Rightarrow> State \<Rightarrow> unit outcome" where
  "recordApprovedDecision env now d s =
     (let s1 =
            (if truthy_num (estimated_cost d) \<and> truthy_str (currency (ctx d)) then
               (let cur = the (currency (ctx d));
                    currentSpent = num_or_zero (map_of (currentSpending s) cur)
                in s\<lparr>currentSpending :=
                       AList.update cur (num_add env currentSpent (the (estimated_cost d)))
                         (currentSpending s)\<rparr>)
             else s);
          s2 =
            (if d_type d = PLATFORM_INTERACTION \<and> truthy_str (platform (ctx d)) then
               (let hkey = hourlyKey (the (platform (ctx d))) now;
                    count = num_or_zero (map_of (interactionCounts s1) hkey)
                in s1\<lparr>interactionCounts :=
                        AList.update hkey (num_add env count 1) (interactionCounts s1)\<rparr>)
             else s1)
      in emit env (Ev_decision_approved d) s2)"

text \<open>\<open>processApprovalResponse\<close> calls the asynchronous \<open>recordApprovedDecision\<close> without
  awaiting it: what it throws rejects a promise nobody reads, so only its state is kept.\<close>

definition processApprovalResponse ::
  "Env \<Rightarrow> nat \<Rightarrow> string \<Rightarrow> bool \<Rightarrow> string \<Rightarrow> string option \<Rightarrow> State \<Rightarrow> unit outcome" where
  "processApprovalResponse env now requestId ok who note s =
     (case map_of (pendingApprovals s) requestId of
        None \<Rightarrow> (Inl InvalidApprovalRequest, s)
      | Some a \<Rightarrow>
          if status (heap s ! a) \<noteq> St_pending then (Inl InvalidApprovalRequest, s)
          else
            (let request = (heap s ! a)
                   \<lparr>status := (if ok then St_approved else St_denied),
                    approver := Some who,
                    response_time := Some (real now - requested_at (heap s ! a)),
                    r_notes := note\<rparr>;
                 s1 = s\<lparr>heap := (heap s)[a := request]\<rparr>;
                 s2 = (if ok
                       then snd (recordApprovedDecision env now (decision request)
                                   (updateApprovalRate True s1))
                       else updateApprovalRate False s1)
             in case emit env
                       (Ev_approval_processed requestId ok who
                          (real now - requested_at (heap s ! a))) s2 of
                  (Inl e, s3) \<Rightarrow> (Inl e, s3)
                | (Inr u, s3) \<Rightarrow>
                    (Inr (), s3\<lparr>pendingApprovals := AList.delete requestId (pendingApprovals s3)\<rparr>)))"

definition getPendingApprovals :: "State \<Rightarrow> ApprovalRequest list" where
  "getPendingApprovals s = map (\<lambda>(i, a). heap s ! a) (pendingApprovals s)"

subsection \<open>Escalation\<close>

text \<open>\<open>executeEscalationAction\<close> calls the asynchronous \<open>requestApproval\<close> without awaiting
  it, so an exception of \<open>requestApproval\<close> does not reach the caller.\<close>

definition executeEscalationAction ::
  "Env \<Rightarrow> nat \<Rightarrow> string \<Rightarrow> EscalationTrigger \<Rightarrow> Decision \<Rightarrow> State \<Rightarrow> unit outcome" where
  "executeEscalationAction env now rnd t d s =
     (let s1 = s\<lparr>metrics := (metrics s)\<lparr>escalations := Suc (escalations (metrics s))\<rparr>\<rparr>
      in case action t of
           PAUSE_AGENT \<Rightarrow>
             triggerEmergencyStop env now
               (''Escalation trigger: '' @ TriggerType_value (t_type t)) s1
         | REQUEST_APPROVAL \<Rightarrow> (Inr (), snd (requestApproval env now rnd d s1))
         | NOTIFY_OWNER \<Rightarrow> emit env (Ev_owner_notification (t_type t) d (priority t)) s1
         | REDUCE_AUTONOMY \<Rightarrow>
             updateAutonomyLevel env now (getReducedAutonomyLevel s1)
               (''Escalation trigger: '' @ TriggerType_value (t_type t)) s1
         | LOG_INCIDENT \<Rightarrow>
             recordViolation env
               \<lparr>v_type = TriggerType_value (t_type t), severity = Sev_warning,
                v_description = ''Escalation trigger activated: '' @ condition t,
                v_timestamp = real now, decision_id = Some (d_id d),
                action_taken = ''logged''\<rparr> s1)"

definition checkEscalationTriggers ::
  "Env \<Rightarrow> nat \<Rightarrow> string \<Rightarrow> Decision \<Rightarrow> State \<Rightarrow> ValidationResult outcome" where
  "checkEscalationTriggers env now rnd d s =
     (case List.find (\<lambda>t. evaluateTrigger t d) (escalation_triggers (config s)) of
        None \<Rightarrow> (Inr (createValidationResult True None None s), s)
      | Some t \<Rightarrow>
          (case executeEscalationAction env now rnd t d s of
             (Inl e, s1) \<Rightarrow> (Inl e, s1)
           | (Inr u, s1) \<Rightarrow>
               (Inr (createValidationResult False
                       (Some [Lit (''Escalation trigger activated: '' @
                                   TriggerType_value (t_type t))])
                       (Some True) s1),
                s1)))"

subsection \<open>validateDecision\<close>

definition validateDecision_rest ::
  "Env \<Rightarrow> nat \<Rightarrow> string \<Rightarrow> Decision \<Rightarrow> State \<Rightarrow> ValidationResult outcome" where
  \<comment> \<open>the body of the \<open>try\<close> block from the risk check on\<close>
  "validateDecision_rest env now rnd d s =
     (let riskCheck = validateRiskLevel d s
      in if \<not> approved riskCheck then (Inr riskCheck, s)
         else
           (case checkEscalationTriggers env now rnd d s of
              (Inl e, s1) \<Rightarrow> (Inl e, s1)
            | (Inr escalationCheck, s1) \<Rightarrow>
                if escalation_required escalationCheck = Some True
                then (Inr escalationCheck, s1)
                else
                  (case recordApprovedDecision env now d s1 of
                     (Inl e, s2) \<Rightarrow> (Inl e, s2)
                   | (Inr u, s2) \<Rightarrow>
                       (Inr (createValidationResult True
                               (Some [Lit ''Decision approved within autonomy parameters''])
                               None s2),
                        s2))))"

definition validateDecision_try ::
  "Env \<Rightarrow> nat \<Rightarrow> string \<Rightarrow> Decision \<Rightarrow> State \<Rightarrow> ValidationResult outcome" where
  \<comment> \<open>the body of the \<open>try\<close> block\<close>
  "validateDecision_try env now rnd d s0 =
     (let s = s0\<lparr>decisionHistory := decisionHistory s0 @ [d],
                 metrics := (metrics s0)\<lparr>decisions_made := Suc (decisions_made (metrics s0))\<rparr>\<rparr>
      in if \<not> isDecisionTypeAllowed s (d_type d) then
           (Inr (createValidationResult False
                   (Some [Lit ''Decision type not allowed at current autonomy level''])
                   (Some True) s),
            s)
         else if d_type d = FINANCIAL_TRANSACTION \<and> truthy_num (estimated_cost d)
                 \<and> \<not> approved (validateSpending env d s) then
           (Inr (validateSpending env d s), s)
         else if d_type d = PLATFORM_INTERACTION
                 \<and> \<not> approved (validateInteractionLimits now d s) then
           (Inr (validateInteractionLimits now d s), s)
         else if d_type d = CONTENT_CREATION then
           (case validateContent env now d s of
              (Inl e, s1) \<Rightarrow> (Inl e, s1)
            | (Inr contentCheck, s1) \<Rightarrow>
                if \<not> approved contentCheck then (Inr contentCheck, s1)
                else validateDecision_rest env now rnd d s1)
         else validateDecision_rest env now rnd d s)"

text \<open>\<open>Inl\<close>: the promise returned by \<open>validateDecision\<close> is rejected.\<close>

definition validateDecision ::
  "Env \<Rightarrow> nat \<Rightarrow> string \<Rightarrow> Decision \<Rightarrow> State \<Rightarrow> ValidationResult outcome" where
  "validateDecision env now rnd d s =
     (case validateDecision_try env now rnd d s of
        (Inr r, s1) \<Rightarrow> (Inr r, s1)
      | (Inl e, s1) \<Rightarrow>
          (case emit env (Ev_error e d) s1 of
             (Inl e', s2) \<Rightarrow> (Inl e', s2)
           | (Inr u, s2) \<Rightarrow>
               (Inr (createValidationResult False (Some [Lit ''Validation error occurred''])
                       (Some True) s2),
                s2)))"

subsection \<open>Operator surface\<close>

text \<open>\<open>Partial<SpendingLimits>\<close> and \<open>Partial<InteractionRules>\<close>: every field optional. The
  spread \<open>{ ...old, ...new }\<close> takes a field from the new object when it is present.\<close>

record SpendingLimits_partial =
  new_dailyLimit :: "real option"
  new_perTransactionLimit :: "real option"
  new_platformLimits :: "(string \<times> real) list option"
  new_approvalRequiredAbove :: "real option"
  new_currencyLimits :: "(string \<times> real) list option"

record InteractionRules_partial =
  new_max_posts_per_hour :: "real option"
  new_max_posts_per_day :: "real option"
  new_max_replies_per_thread :: "real option"
  new_max_dm_conversations :: "real option"
  new_cooldown_between_posts :: "real option"
  new_forbidden_content_types :: "string list option"
  new_required_disclaimers :: "string list option"

definition spread :: "'a \<Rightarrow> 'a option \<Rightarrow> 'a" where
  "spread old new = (case new of None \<Rightarrow> old | Some v \<Rightarrow> v)"

definition updateSpendingLimits :: "Env \<Rightarrow> SpendingLimits_partial \<Rightarrow> State \<Rightarrow> unit outcome" where
  "updateSpendingLimits env newLimits s =
     (let old = spending_limits (config s);
          lim = \<lparr>dailyLimit = spread (dailyLimit old) (new_dailyLimit newLimits),
                 perTransactionLimit =
                   spread (perTransactionLimit old) (new_perTransactionLimit newLimits),
                 platformLimits = spread (platformLimits old) (new_platformLimits newLimits),
                 approvalRequiredAbove =
                   spread (approvalRequiredAbove old) (new_approvalRequiredAbove newLimits),
                 currencyLimits = spread (currencyLimits old) (new_currencyLimits newLimits)\<rparr>
      in emit env (Ev_spending_limits_updated lim)
           (s\<lparr>config := (config s)\<lparr>spending_limits := lim\<rparr>\<rparr>))"

definition updateInteractionRules ::
  "Env \<Rightarrow> InteractionRules_partial \<Rightarrow> State \<Rightarrow> unit outcome" where
  "updateInteractionRules env newRules s =
     (let old = interaction_rules (config s);
          rules =
            \<lparr>max_posts_per_hour =
               spread (max_posts_per_hour old) (new_max_posts_per_hour newRules),
             max_posts_per_day = spread (max_posts_per_day old) (new_max_posts_per_day newRules),
             max_replies_per_thread =
               spread (max_replies_per_thread old) (new_max_replies_per_thread newRules),
             max_dm_conversations =
               spread (max_dm_conversations old) (new_max_dm_conversations newRules),
             cooldown_between_posts =
               spread (cooldown_between_posts old) (new_cooldown_between_posts newRules),
             forbidden_content_types =
               spread (forbidden_content_types old) (new_forbidden_content_types newRules),
             required_disclaimers =
               spread (required_disclaimers old) (new_required_disclaimers newRules)\<rparr>
      in emit env (Ev_interaction_rules_updated rules)
           (s\<lparr>config := (config s)\<lparr>interaction_rules := rules\<rparr>\<rparr>))"

definition addEscalationTrigger :: "Env \<Rightarrow> EscalationTrigger \<Rightarrow> State \<Rightarrow> unit outcome" where
  "addEscalationTrigger env t s =
     emit env (Ev_escalation_trigger_added t)
       (s\<lparr>config := (config s)
            \<lparr>escalation_triggers := escalation_triggers (config s) @ [t]\<rparr>\<rparr>)"

definition removeEscalationTrigger :: "Env \<Rightarrow> TriggerType \<Rightarrow> State \<Rightarrow> unit outcome" where
  "removeEscalationTrigger env triggerType s =
     emit env (Ev_escalation_trigger_removed triggerType)
       (s\<lparr>config := (config s)
            \<lparr>escalation_triggers :=
               filter (\<lambda>t. t_type t \<noteq> triggerType) (escalation_triggers (config s))\<rparr>\<rparr>)"

definition getMetrics :: "State \<Rightarrow> AutonomyMetrics \<times> State" where
  "getMetrics s =
     (let s1 = s\<lparr>metrics := (metrics s)\<lparr>autonomy_score := calculateAutonomyScore s\<rparr>\<rparr>
      in (metrics s1, s1))"

subsection \<open>Maintenance tasks (the three callbacks of \<open>startMaintenanceTasks\<close>)\<close>

definition resetDailySpending :: "State \<Rightarrow> State" where
  "resetDailySpending s = s\<lparr>currentSpending := []\<rparr>"

definition is_digit :: "char \<Rightarrow> bool" where
  "is_digit c = (48 \<le> (of_char c :: nat) \<and> (of_char c :: nat) \<le> 57)"

fun digits_value :: "string \<Rightarrow> nat \<Rightarrow> nat" where
  "digits_value [] acc = acc"
| "digits_value (c # cs) acc = digits_value cs (10 * acc + ((of_char c :: nat) - 48))"

text \<open>\<open>parseInt\<close> on the strings it is given here: the leading decimal digits, or NaN
  (\<open>None\<close>) when there is none. Leading white space, a sign and a radix prefix are not
  modelled: the last segment of a key that \<open>recordApprovedDecision\<close> stored is the decimal
  hour bucket.\<close>

definition parseInt :: "string \<Rightarrow> nat option" where
  "parseInt str =
     (let ds = takeWhile is_digit str in if ds = [] then None else Some (digits_value ds 0))"

definition lastSegment :: "string \<Rightarrow> string" where
  \<comment> \<open>\<open>key.split('_').pop()\<close>\<close>
  "lastSegment k = rev (takeWhile (\<lambda>c. c \<noteq> CHR ''_'') (rev k))"

definition cleanInteractionCounts :: "nat \<Rightarrow> State \<Rightarrow> State" where
  "cleanInteractionCounts now s =
     (let cutoff = int (now div 3600000) - 24
      in s\<lparr>interactionCounts :=
             filter
               (\<lambda>(k, v).
                  \<not> (case parseInt (if lastSegment k = [] then ''0'' else lastSegment k) of
                       None \<Rightarrow> False
                     | Some t \<Rightarrow> int t < cutoff))
               (interactionCounts s)\<rparr>)"

fun expireLoop :: "Env \<Rightarrow> nat \<Rightarrow> (string \<times> nat) list \<Rightarrow> State \<Rightarrow> unit outcome" where
  \<comment> \<open>the loop of the minute sweep over the entries of \<open>pendingApprovals\<close>\<close>
  "expireLoop env now [] s = (Inr (), s)"
| "expireLoop env now ((i, a) # rest) s =
     (if timeout_at (heap s ! a) < real now \<and> status (heap s ! a) = St_pending then
        (case emit env (Ev_approval_timeout i (decision (heap s ! a)))
                (s\<lparr>heap := (heap s)[a := (heap s ! a)\<lparr>status := St_timeout\<rparr>],
                   pendingApprovals := AList.delete i (pendingApprovals s)\<rparr>) of
           (Inl e, s1) \<Rightarrow> (Inl e, s1)
         | (Inr u, s1) \<Rightarrow> expireLoop env now rest s1)
      else expireLoop env now rest s)"

definition expireApprovals :: "Env \<Rightarrow> nat \<Rightarrow> State \<Rightarrow> unit outcome" where
  "expireApprovals env now s = expireLoop env now (pendingApprovals s) s"

subsection \<open>Construction and reachable states\<close>

definition getDefaultInteractionRules :: InteractionRules where
  "getDefaultInteractionRules =
     \<lparr>max_posts_per_hour = 20, max_posts_per_day = 100, max_replies_per_thread = 5,
      max_dm_conversations = 50, cooldown_between_posts = 5,
      forbidden_content_types = [''spam'', ''harassment'', ''financial_advice''],
      required_disclaimers = [''AI disclaimer'']\<rparr>"

definition getDefaultEscalationTriggers :: "EscalationTrigger list" where
  "getDefaultEscalationTriggers =
     [\<lparr>t_type = SPENDING_THRESHOLD, condition = ''single_transaction_over_limit'',
       threshold = 1000, action = REQUEST_APPROVAL, priority = G_high\<rparr>,
      \<lparr>t_type = ERROR_RATE, condition = ''error_rate_above_threshold'',
       threshold = 1 / 10, action = REDUCE_AUTONOMY, priority = G_medium\<rparr>]"

definition init :: "AutonomyLevel \<Rightarrow> SpendingLimits \<Rightarrow> State" where
  \<comment> \<open>the constructor\<close>
  "init l spendingLimits =
     (let s = \<lparr>config =
                 \<lparr>level = l, spending_limits = spendingLimits,
                  interaction_rules = getDefaultInteractionRules,
                  escalation_triggers = getDefaultEscalationTriggers,
                  approval_timeout = 300, emergency_contacts = []\<rparr>,
               currentSpending = [], interactionCounts = [], pendingApprovals = [],
               heap = [], violationHistory = [], decisionHistory = [],
               metrics =
                 \<lparr>decisions_made = 0, approvals_requested = 0, approval_rate = 0,
                  average_response_time = 0, violations = 0, escalations = 0,
                  autonomy_score = 0\<rparr>,
               timers = [], emitted = []\<rparr>
      in s\<lparr>metrics := (metrics s)\<lparr>autonomy_score := calculateInitialAutonomyScore s\<rparr>\<rparr>)"

text \<open>The states of a controller: the constructor's, and what a call of a public method or
  a firing timer makes of one. A scheduled timeout fires once. \<open>validateAction\<close> builds a
  decision and calls \<open>validateDecision\<close>, so its states are those of \<open>validateDecision\<close>.\<close>

inductive reachable :: "State \<Rightarrow> bool" where
  r_init: "reachable (init l spendingLimits)"
| r_validateDecision:
    "reachable s \<Longrightarrow> reachable (snd (validateDecision env now rnd d s))"
| r_requestApproval:
    "reachable s \<Longrightarrow> reachable (snd (requestApproval env now rnd d s))"
| r_processApprovalResponse:
    "reachable s \<Longrightarrow> reachable (snd (processApprovalResponse env now i ok who note s))"
| r_updateAutonomyLevel:
    "reachable s \<Longrightarrow> reachable (snd (updateAutonomyLevel env now l why s))"
| r_updateSpendingLimits:
    "reachable s \<Longrightarrow> reachable (snd (updateSpendingLimits env newLimits s))"
| r_updateInteractionRules:
    "reachable s \<Longrightarrow> reachable (snd (updateInteractionRules env newRules s))"
| r_addEscalationTrigger:
    "reachable s \<Longrightarrow> reachable (snd (addEscalationTrigger env t s))"
| r_removeEscalationTrigger:
    "reachable s \<Longrightarrow> reachable (snd (removeEscalationTrigger env tt s))"
| r_triggerEmergencyStop:
    "reachable s \<Longrightarrow> reachable (snd (triggerEmergencyStop env now why s))"
| r_getMetrics:
    "reachable s \<Longrightarrow> reachable (snd (getMetrics s))"
| r_approvalTimeout:
    "reachable s \<Longrightarrow> (i, d, due) \<in> set (timers s) \<Longrightarrow>
     reachable (snd (approvalTimeoutCallback env i d
                       (s\<lparr>timers := remove1 (i, d, due) (timers s)\<rparr>)))"
| r_resetDailySpending:
    "reachable s \<Longrightarrow> reachable (resetDailySpending s)"
| r_cleanInteractionCounts:
    "reachable s \<Longrightarrow> reachable (cleanInteractionCounts now s)"
| r_expireApprovals:
    "reachable s \<Longrightarrow> reachable (snd (expireApprovals env now s))"

section \<open>Definitions used to state the properties\<close>


text \<open>The ladder of the specification: \<open>Restricted\<close> is the lowest rung, \<open>Autonomous\<close> the
  highest.\<close>

definition ladder_rung :: "AutonomyLevel \<Rightarrow> nat" where
  "ladder_rung l = (case l of RESTRICTED \<Rightarrow> 0 | SUPERVISED \<Rightarrow> 1 | SEMI_AUTONOMOUS \<Rightarrow> 2 | AUTONOMOUS \<Rightarrow> 3)"

text \<open>One \<open>ReduceAutonomy\<close> escalation: \<open>executeEscalationAction\<close> on a trigger whose action
  is \<open>REDUCE_AUTONOMY\<close>, keeping the state.\<close>

definition reduceAutonomy_step ::
  "Env \<Rightarrow> nat \<Rightarrow> string \<Rightarrow> EscalationTrigger \<Rightarrow> Decision \<Rightarrow> State \<Rightarrow> State" where
  "reduceAutonomy_step env now rnd t d s = snd (executeEscalationAction env now rnd t d s)"

text \<open>Concrete inputs for the examples.\<close>

definition example_limits :: SpendingLimits where
  "example_limits = \<lparr>dailyLimit = 100, perTransactionLimit = 200, platformLimits = [],
      approvalRequiredAbove = 200, currencyLimits = []\<rparr>"

definition example_decision :: "DecisionType \<Rightarrow> string \<Rightarrow> real option \<Rightarrow> string option \<Rightarrow> Decision" where
  "example_decision ty descr cost cur =
     \<lparr>d_id = ''d1'', d_type = ty, description = descr,
      ctx = \<lparr>platform = Some ''twitter'', target = None, amount = None, currency = cur,
             urgency = G_low, potential_impact = I_minimal, reversible = True,
             precedent_exists = True\<rparr>,
      risk_level = LOW, estimated_cost = cost, estimated_revenue = None,
      requires_approval = None, timestamp = 0, confidence = 1\<rparr>"

text \<open>The environment of the examples: no listener is registered. The numbers of the
  examples are integers far below \<open>2 ^ 53\<close> and their text is ASCII, where the addition of
  doubles is exact and \<open>toLowerCase\<close> folds only \<open>A\<close> to \<open>Z\<close>.\<close>

definition no_listeners :: Env where
  "no_listeners =
     \<lparr>listeners = (\<lambda>name. []), num_add = (\<lambda>a b. a + b), toLowerCase = ascii_toLowerCase\<rparr>"

definition reduce_trigger :: EscalationTrigger where
  "reduce_trigger = \<lparr>t_type = SPENDING_THRESHOLD, condition = ''over_50'', threshold = 50,
      action = REDUCE_AUTONOMY, priority = G_high\<rparr>"

text \<open>The bounds of the specification on the stored score.\<close>

definition score_ok :: "State \<Rightarrow> bool" where
  "score_ok s = (0 \<le> autonomy_score (metrics s) \<and> autonomy_score (metrics s) \<le> 100)"



text \<open>The allow-sets of the specification, by level.\<close>

definition spec_allow_set :: "AutonomyLevel \<Rightarrow> DecisionType set" where
  "spec_allow_set l =
     (case l of
        RESTRICTED \<Rightarrow> {LEARNING_ADAPTATION}
      | SUPERVISED \<Rightarrow> {LEARNING_ADAPTATION, PLATFORM_INTERACTION}
      | SEMI_AUTONOMOUS \<Rightarrow> UNIV - {FINANCIAL_TRANSACTION}
      | AUTONOMOUS \<Rightarrow> UNIV)"

definition type_denial :: message where
  "type_denial = [Lit ''Decision type not allowed at current autonomy level'']"

text \<open>A denial that asks for escalation, as \<open>createValidationResult(false, m, true)\<close> builds
  it in state \<open>s\<close>.\<close>

definition escalated_denial :: "message \<Rightarrow> State \<Rightarrow> ValidationResult" where
  "escalated_denial m s =
     \<lparr>approved = False, reason = Some m, conditions = None, escalation_required = Some True,
      vr_approval_timeout = Some (approval_timeout (config s))\<rparr>"

text \<open>The state after \<open>decisionHistory.push(decision); metrics.decisions_made++\<close>.\<close>

definition noted :: "Decision \<Rightarrow> State \<Rightarrow> State" where
  "noted d s =
     s\<lparr>decisionHistory := decisionHistory s @ [d],
       metrics := (metrics s)\<lparr>decisions_made := Suc (decisions_made (metrics s))\<rparr>\<rparr>"

text \<open>A controller that approved a payment of 50 SEI and whose daily limit was then lowered
  to 10.\<close>

definition lowered_limit :: SpendingLimits_partial where
  "lowered_limit =
     \<lparr>new_dailyLimit = Some 10, new_perTransactionLimit = None, new_platformLimits = None,
      new_approvalRequiredAbove = None, new_currencyLimits = None\<rparr>"

definition overspent_state :: State where
  "overspent_state =
     snd (updateSpendingLimits no_listeners lowered_limit
       (snd (validateDecision no_listeners 0 ''r''
          (example_decision FINANCIAL_TRANSACTION ''pay'' (Some 50) (Some ''SEI''))
          (init AUTONOMOUS example_limits))))"

definition payment :: "real \<Rightarrow> Decision" where
  "payment c = example_decision FINANCIAL_TRANSACTION ''pay'' (Some c) (Some ''SEI'')"

text \<open>A post that carries a cost of 5 SEI.\<close>

definition paid_post :: Decision where
  "paid_post = example_decision CONTENT_CREATION ''a post about cats'' (Some 5) (Some ''SEI'')"

text \<open>The call returned an approval.\<close>

definition approved_result :: "exn + ValidationResult \<Rightarrow> bool" where
  "approved_result r = (case r of Inl e \<Rightarrow> False | Inr v \<Rightarrow> approved v)"

text \<open>The first entry of \<open>forbidden_content_types\<close> whose lower-case form the lower-case
  description contains: the entry at which the loop of \<open>validateContent\<close> returns.\<close>

definition first_forbidden :: "Env \<Rightarrow> Decision \<Rightarrow> State \<Rightarrow> string option" where
  "first_forbidden env d s =
     List.find (\<lambda>forbidden. str_includes (toLowerCase env (description d))
                                 (toLowerCase env forbidden))
       (forbidden_content_types (interaction_rules (config s)))"

definition content_violation :: "nat \<Rightarrow> Decision \<Rightarrow> string \<Rightarrow> GuardrailViolation" where
  "content_violation now d forbidden =
     \<lparr>v_type = ''content_policy'', severity = Sev_error,
      v_description = ''Content contains forbidden type: '' @ forbidden,
      v_timestamp = real now, decision_id = Some (d_id d), action_taken = ''blocked''\<rparr>"

definition spam_post :: Decision where
  "spam_post = example_decision CONTENT_CREATION ''Win big: this is SPAM'' None None"

text \<open>No registered listener throws.\<close>

definition listeners_return :: "Env \<Rightarrow> bool" where
  "listeners_return env = (\<forall>name. Throws \<notin> set (listeners env name))"

text \<open>An \<open>ErrorRate\<close> trigger with a threshold below every rate, alone in a configuration.\<close>

definition error_rate_trigger :: EscalationTrigger where
  "error_rate_trigger =
     \<lparr>t_type = ERROR_RATE, condition = ''any_error_rate'', threshold = - 1,
      action = REDUCE_AUTONOMY, priority = G_medium\<rparr>"

definition error_rate_state :: State where
  "error_rate_state =
     snd (addEscalationTrigger no_listeners error_rate_trigger
       (snd (removeEscalationTrigger no_listeners ERROR_RATE
          (snd (removeEscalationTrigger no_listeners SPENDING_THRESHOLD
             (init AUTONOMOUS example_limits))))))"

text \<open>A controller with a third trigger: reduce autonomy for a cost above 50.\<close>

definition reducing_state :: State where
  "reducing_state =
     snd (addEscalationTrigger no_listeners reduce_trigger (init AUTONOMOUS example_limits))"

text \<open>Listeners as a dashboard might register them: one on \<open>decision_approved\<close> that throws,
  none on \<open>error\<close>.\<close>

definition fragile_listeners :: Env where
  "fragile_listeners =
     no_listeners\<lparr>listeners :=
       (\<lambda>name. if name = ''decision_approved'' then [Throws] else [])\<rparr>"

definition tuning :: Decision where
  "tuning = example_decision LEARNING_ADAPTATION ''tune the reply style'' None None"

text \<open>An approval request made at time 0 (its id is \<open>approval_0_abc\<close>, its deadline 300000),
  and the state after its deferred timeout callback has fired.\<close>

definition waiting_state :: State where
  "waiting_state =
     snd (requestApproval no_listeners 0 ''abc'' (payment 150) (init AUTONOMOUS example_limits))"

definition timed_out_state :: State where
  "timed_out_state =
     snd (approvalTimeoutCallback no_listeners ''approval_0_abc'' (payment 150)
            (waiting_state\<lparr>timers :=
               remove1 (''approval_0_abc'', payment 150, 300000) (timers waiting_state)\<rparr>))"

definition stopped_state :: State where
  "stopped_state = snd (triggerEmergencyStop no_listeners 400000 ''halt'' timed_out_state)"

text \<open>The store is well formed: the keys of \<open>pendingApprovals\<close> are distinct (it is a
  \<open>Map\<close>) and every address in it is the address of an allocated request.\<close>

definition pending_wf :: "State \<Rightarrow> bool" where
  "pending_wf s =
     (distinct (map fst (pendingApprovals s))
      \<and> (\<forall>p \<in> set (pendingApprovals s). snd p < length (heap s)))"


text \<open>An environment whose addition gives \<open>2 ^ 53\<close> for \<open>2 ^ 53 + 1\<close>, as the addition of
  doubles does, and a controller that has \<open>2 ^ 53\<close> SEI on its ledger with a daily limit of
  \<open>2 ^ 53\<close>.\<close>

definition absorbing_add :: Env where
  "absorbing_add =
     no_listeners\<lparr>num_add := (\<lambda>a b. if a = 2 ^ 53 \<and> b = 1 then 2 ^ 53 else a + b)\<rparr>"

definition large_limits :: SpendingLimits where
  "large_limits = \<lparr>dailyLimit = 2 ^ 53, perTransactionLimit = 2 ^ 53, platformLimits = [],
      approvalRequiredAbove = 2 ^ 53, currencyLimits = []\<rparr>"

definition large_ledger :: State where
  "large_ledger = (init AUTONOMOUS large_limits)\<lparr>currentSpending := [(''SEI'', 2 ^ 53)]\<rparr>"

text \<open>An environment whose \<open>toLowerCase\<close> also turns the capital E with acute accent (bytes
  \<open>C3 89\<close>) into the small one (bytes \<open>C3 A9\<close>), as the Unicode conversion does; a post whose
  description is the small letter followed by \<open>spam\<close>; and a controller whose forbidden
  entries are the capital letter and \<open>spam\<close>.\<close>

fun e_acute_toLowerCase :: "string \<Rightarrow> string" where
  "e_acute_toLowerCase (a # b # cs) =
     (if a = CHR 0xC3 \<and> b = CHR 0x89 then CHR 0xC3 # CHR 0xA9 # e_acute_toLowerCase cs
      else ascii_toLowerCase_char a # e_acute_toLowerCase (b # cs))"
| "e_acute_toLowerCase [a] = [ascii_toLowerCase_char a]"
| "e_acute_toLowerCase [] = []"

definition e_acute_env :: Env where
  "e_acute_env = no_listeners\<lparr>toLowerCase := e_acute_toLowerCase\<rparr>"

definition e_acute_post :: Decision where
  "e_acute_post =
     example_decision CONTENT_CREATION
       [CHR 0xC3, CHR 0xA9, CHR '' '', CHR ''s'', CHR ''p'', CHR ''a'', CHR ''m''] None None"

definition e_acute_rules :: InteractionRules_partial where
  "e_acute_rules =
     \<lparr>new_max_posts_per_hour = None, new_max_posts_per_day = None,
      new_max_replies_per_thread = None, new_max_dm_conversations = None,
      new_cooldown_between_posts = None,
      new_forbidden_content_types = Some [[CHR 0xC3, CHR 0x89], ''spam''],
      new_required_disclaimers = None\<rparr>"

definition e_acute_state :: State where
  "e_acute_state =
     snd (updateInteractionRules e_acute_env e_acute_rules (init AUTONOMOUS example_limits))"


section \<open>Properties\<close>

subsection \<open>The environment of the examples\<close>

lemma no_listeners_fields [simp]:
  "listeners no_listeners name = []"
  "num_add no_listeners a b = a + b"
  "toLowerCase no_listeners = ascii_toLowerCase"
  by (simp_all add: no_listeners_def)

lemma fragile_listeners_fields [simp]:
  "listeners fragile_listeners name = (if name = ''decision_approved'' then [Throws] else [])"
  "num_add fragile_listeners a b = a + b"
  "toLowerCase fragile_listeners = ascii_toLowerCase"
  by (simp_all add: fragile_listeners_def)

subsection \<open>Autonomy level\<close>

lemma level_adjust [simp]: "level (config (adjustLimitsForLevel l s)) = level (config s)"
  by (simp add: adjustLimitsForLevel_def Let_def split: AutonomyLevel.splits)

lemma metrics_adjust [simp]: "metrics (adjustLimitsForLevel l s) = metrics s"
  by (simp add: adjustLimitsForLevel_def Let_def split: AutonomyLevel.splits)

lemma level_updateAutonomyLevel:
  "level (config (snd (updateAutonomyLevel env now l why s))) = l"
  by (simp add: updateAutonomyLevel_def Let_def emit_def split: option.splits)

lemma reduceAutonomy_step_level:
  "action t = REDUCE_AUTONOMY \<Longrightarrow>
   level (config (reduceAutonomy_step env now rnd t d s)) = getReducedAutonomyLevel s"
  by (simp add: reduceAutonomy_step_def executeEscalationAction_def Let_def level_updateAutonomyLevel getReducedAutonomyLevel_def)

text \<open>
  Claim C4. Each \<open>ReduceAutonomy\<close> escalation moves the level exactly as
  \<open>Autonomous \<rightarrow> SemiAutonomous \<rightarrow> Supervised \<rightarrow> Restricted\<close>, and leaves \<open>Restricted\<close> at
  \<open>Restricted\<close>; so a step never moves the level upward and never skips a rung, and four
  successive steps from \<open>Autonomous\<close> visit \<open>SemiAutonomous\<close>, \<open>Supervised\<close>, \<open>Restricted\<close>,
  \<open>Restricted\<close>. This holds whatever the listeners do.
\<close>

theorem reduce_autonomy_ladder:
  assumes "action t = REDUCE_AUTONOMY"
  shows "level (config (reduceAutonomy_step env now rnd t d s)) =
           (case level (config s) of
              AUTONOMOUS \<Rightarrow> SEMI_AUTONOMOUS
            | SEMI_AUTONOMOUS \<Rightarrow> SUPERVISED
            | SUPERVISED \<Rightarrow> RESTRICTED
            | RESTRICTED \<Rightarrow> RESTRICTED)
       \<and> ladder_rung (level (config (reduceAutonomy_step env now rnd t d s)))
            \<le> ladder_rung (level (config s))
       \<and> ladder_rung (level (config s))
            \<le> Suc (ladder_rung (level (config (reduceAutonomy_step env now rnd t d s))))
       \<and> (level (config s) = AUTONOMOUS \<longrightarrow>
            map (\<lambda>n. level (config ((reduceAutonomy_step env now rnd t d ^^ n) s))) [1, 2, 3, 4]
              = [SEMI_AUTONOMOUS, SUPERVISED, RESTRICTED, RESTRICTED])"
proof -
  let ?f = "reduceAutonomy_step env now rnd t d"
  have step: "level (config (?f x)) = getReducedAutonomyLevel x" for x
    using assms by (rule reduceAutonomy_step_level)
  have trace: "map (\<lambda>n. level (config ((?f ^^ n) s))) [1, 2, 3, 4]
              = [SEMI_AUTONOMOUS, SUPERVISED, RESTRICTED, RESTRICTED]"
    if a: "level (config s) = AUTONOMOUS"
  proof -
    have 1: "level (config (?f s)) = SEMI_AUTONOMOUS"
      using a by (simp add: step getReducedAutonomyLevel_def)
    have 2: "level (config (?f (?f s))) = SUPERVISED"
      using 1 by (simp add: step getReducedAutonomyLevel_def)
    have 3: "level (config (?f (?f (?f s)))) = RESTRICTED"
      using 2 by (simp add: step getReducedAutonomyLevel_def)
    have 4: "level (config (?f (?f (?f (?f s))))) = RESTRICTED"
      using 3 by (simp add: step getReducedAutonomyLevel_def)
    show ?thesis using 1 2 3 4 by (simp add: numeral_eq_Suc)
  qed
  show ?thesis
    using trace
    by (simp add: step getReducedAutonomyLevel_def ladder_rung_def split: AutonomyLevel.splits)
qed

theorem reduce_autonomy_ladder_witness:
  "action reduce_trigger = REDUCE_AUTONOMY
   \<and> level (config (init AUTONOMOUS example_limits)) = AUTONOMOUS
   \<and> map (\<lambda>n. level (config ((reduceAutonomy_step no_listeners 0 ''r'' reduce_trigger
              (example_decision FINANCIAL_TRANSACTION ''pay'' (Some 60) (Some ''SEI'')) ^^ n)
              (init AUTONOMOUS example_limits)))) [1, 2, 3, 4]
       = [SEMI_AUTONOMOUS, SUPERVISED, RESTRICTED, RESTRICTED]"
proof -
  have a: "action reduce_trigger = REDUCE_AUTONOMY" by (simp add: reduce_trigger_def)
  have l: "level (config (init AUTONOMOUS example_limits)) = AUTONOMOUS"
    by (simp add: init_def)
  from reduce_autonomy_ladder [OF a, of no_listeners 0 "''r''"
      "example_decision FINANCIAL_TRANSACTION ''pay'' (Some 60) (Some ''SEI'')"
      "init AUTONOMOUS example_limits"] l a
  show ?thesis by simp
qed

subsection \<open>Events\<close>

lemma snd_emit [simp]: "snd (emit env e s) = s\<lparr>emitted := emitted s @ [e]\<rparr>"
  by (simp add: emit_def split: option.splits)

lemma emit_eq: "emit env e s = (r, s') \<Longrightarrow> s' = s\<lparr>emitted := emitted s @ [e]\<rparr>"
  by (auto simp add: emit_def split: option.splits)

subsection \<open>The autonomy score\<close>


lemma score_ok_emitted [simp]: "score_ok (s\<lparr>emitted := x\<rparr>) = score_ok s"
  by (simp add: score_ok_def)

lemma score_ok_emit: "score_ok s \<Longrightarrow> score_ok (snd (emit env e s))"
  by simp









lemma score_ok_heap [simp]: "score_ok (s\<lparr>heap := x\<rparr>) = score_ok s"
  by (simp add: score_ok_def)

lemma score_ok_pendingApprovals [simp]: "score_ok (s\<lparr>pendingApprovals := x\<rparr>) = score_ok s"
  by (simp add: score_ok_def)













subsection \<open>Type permission\<close>

lemma isDecisionTypeAllowed_allow_set:
  "isDecisionTypeAllowed s t = (t \<in> spec_allow_set (level (config s)))"
  by (cases "level (config s)") (auto simp add: isDecisionTypeAllowed_def spec_allow_set_def)

lemma validateDecision_type_denied:
  assumes "\<not> isDecisionTypeAllowed s (d_type d)"
  shows "fst (validateDecision env now rnd d s) =
           Inr \<lparr>approved = False, reason = Some type_denial, conditions = None,
                escalation_required = Some True,
                vr_approval_timeout = Some (approval_timeout (config s))\<rparr>"
proof -
  have "isDecisionTypeAllowed
          (s\<lparr>decisionHistory := decisionHistory s @ [d],
             metrics := (metrics s)\<lparr>decisions_made := Suc (decisions_made (metrics s))\<rparr>\<rparr>)
          (d_type d) = isDecisionTypeAllowed s (d_type d)"
    by (simp add: isDecisionTypeAllowed_def)
  then show ?thesis
    using assms
    by (simp add: validateDecision_def validateDecision_try_def Let_def
          createValidationResult_def type_denial_def)
qed

lemma reason_validateSpending: "reason (validateSpending env d s) \<noteq> Some type_denial"
  by (simp add: validateSpending_def Let_def createValidationResult_def type_denial_def)

lemma reason_validateInteractionLimits:
  "reason (validateInteractionLimits now d s) \<noteq> Some type_denial"
  by (simp add: validateInteractionLimits_def Let_def createValidationResult_def type_denial_def)

lemma reason_validateRiskLevel: "reason (validateRiskLevel d s) \<noteq> Some type_denial"
  by (cases "level (config s)")
     (simp_all add: validateRiskLevel_def createValidationResult_def type_denial_def)

lemma reason_validateContent:
  "fst (validateContent env now d s) = Inr r \<Longrightarrow> reason r \<noteq> Some type_denial"
  by (auto simp add: validateContent_def createValidationResult_def type_denial_def
      split: option.splits prod.splits sum.splits)

lemma reason_checkEscalationTriggers:
  "fst (checkEscalationTriggers env now rnd d s) = Inr r \<Longrightarrow> reason r \<noteq> Some type_denial"
  by (auto simp add: checkEscalationTriggers_def createValidationResult_def type_denial_def
      split: option.splits prod.splits sum.splits)

lemma reason_validateDecision_rest:
  "fst (validateDecision_rest env now rnd d s) = Inr r \<Longrightarrow> reason r \<noteq> Some type_denial"
  using reason_validateRiskLevel [of d s] reason_checkEscalationTriggers [of env now rnd d s]
  by (auto simp add: validateDecision_rest_def Let_def createValidationResult_def type_denial_def
      split: prod.splits sum.splits if_splits)

lemma reason_validateDecision_try:
  assumes "isDecisionTypeAllowed s (d_type d)"
    and "fst (validateDecision_try env now rnd d s) = Inr r"
  shows "reason r \<noteq> Some type_denial"
proof -
  let ?s = "s\<lparr>decisionHistory := decisionHistory s @ [d],
             metrics := (metrics s)\<lparr>decisions_made := Suc (decisions_made (metrics s))\<rparr>\<rparr>"
  have a: "isDecisionTypeAllowed ?s (d_type d)"
    using assms(1) by (simp add: isDecisionTypeAllowed_def)
  show ?thesis
    using assms(2) a reason_validateSpending [of env d ?s]
      reason_validateInteractionLimits [of now d ?s]
      reason_validateContent [of env now d ?s]
      reason_validateDecision_rest [of env now rnd d]
    by (auto simp add: validateDecision_try_def Let_def split: prod.splits sum.splits if_splits)
qed

lemma reason_validateDecision:
  assumes "isDecisionTypeAllowed s (d_type d)"
    and "fst (validateDecision env now rnd d s) = Inr r"
  shows "reason r \<noteq> Some type_denial"
  using assms reason_validateDecision_try [of s d env now rnd]
  by (auto simp add: validateDecision_def createValidationResult_def type_denial_def emit_def
      split: prod.splits sum.splits option.splits)

text \<open>
  Claim C7. The decision types \<open>validateDecision\<close> permits at a level are exactly the
  allow-set of that level (\<open>Restricted\<close>: \<open>LearningAdaptation\<close>; \<open>Supervised\<close>:
  \<open>LearningAdaptation\<close> and \<open>PlatformInteraction\<close>; \<open>SemiAutonomous\<close>: all but
  \<open>FinancialTransaction\<close>; \<open>Autonomous\<close>: all). A decision whose type is outside the allow-set
  is denied with \<open>escalation_required = true\<close> and the type reason; a decision whose type is
  inside is never denied for its type.
\<close>

theorem type_permission:
  "isDecisionTypeAllowed s t = (t \<in> spec_allow_set (level (config s)))
   \<and> (d_type d \<notin> spec_allow_set (level (config s)) \<longrightarrow>
        fst (validateDecision env now rnd d s) =
          Inr \<lparr>approved = False, reason = Some type_denial, conditions = None,
               escalation_required = Some True,
               vr_approval_timeout = Some (approval_timeout (config s))\<rparr>)
   \<and> (d_type d \<in> spec_allow_set (level (config s)) \<longrightarrow>
        (\<forall>r. fst (validateDecision env now rnd d s) = Inr r \<longrightarrow> reason r \<noteq> Some type_denial))"
  using validateDecision_type_denied [of s d env now rnd]
    reason_validateDecision [of s d env now rnd]
  by (simp add: isDecisionTypeAllowed_allow_set)

theorem type_permission_witness:
  "PLATFORM_INTERACTION \<notin> spec_allow_set (level (config (init RESTRICTED example_limits)))
   \<and> fst (validateDecision no_listeners 0 ''r''
            (example_decision PLATFORM_INTERACTION ''like a post'' None None)
            (init RESTRICTED example_limits)) =
       Inr \<lparr>approved = False, reason = Some type_denial, conditions = None,
            escalation_required = Some True, vr_approval_timeout = Some 300\<rparr>
   \<and> LEARNING_ADAPTATION \<in> spec_allow_set (level (config (init RESTRICTED example_limits)))
   \<and> reason (createValidationResult True
               (Some [Lit ''Decision approved within autonomy parameters'']) None
               (init RESTRICTED example_limits)) \<noteq> Some type_denial"
proof -
  let ?s = "init RESTRICTED example_limits"
  let ?d = "example_decision PLATFORM_INTERACTION ''like a post'' None None"
  let ?e = "example_decision LEARNING_ADAPTATION ''tune'' None None"
  have l: "level (config ?s) = RESTRICTED" by (simp add: init_def)
  have a: "d_type ?d \<notin> spec_allow_set (level (config ?s))"
    by (simp add: l spec_allow_set_def example_decision_def)
  have b: "d_type ?e \<in> spec_allow_set (level (config ?s))"
    by (simp add: l spec_allow_set_def example_decision_def)
  have t: "approval_timeout (config ?s) = 300" by (simp add: init_def)
  have v: "fst (validateDecision no_listeners 0 ''r'' ?e ?s) =
    Inr (createValidationResult True
               (Some [Lit ''Decision approved within autonomy parameters'']) None ?s)"
    by (simp add: validateDecision_def validateDecision_try_def validateDecision_rest_def
          Let_def init_def example_decision_def isDecisionTypeAllowed_def validateRiskLevel_def
          createValidationResult_def checkEscalationTriggers_def evaluateTrigger_def
          getDefaultEscalationTriggers_def num_or_zero_def recordApprovedDecision_def
          truthy_num_def truthy_str_def emit_def emit_throws_def no_listeners_def)
  from type_permission [of ?s PLATFORM_INTERACTION ?d no_listeners 0 "''r''"] a
  have 1: "fst (validateDecision no_listeners 0 ''r'' ?d ?s) =
       Inr \<lparr>approved = False, reason = Some type_denial, conditions = None,
            escalation_required = Some True, vr_approval_timeout = Some 300\<rparr>"
    by (simp add: t)
  from type_permission [of ?s PLATFORM_INTERACTION ?e no_listeners 0 "''r''"] b v
  have 2: "reason (createValidationResult True
               (Some [Lit ''Decision approved within autonomy parameters'']) None ?s)
            \<noteq> Some type_denial"
    by simp
  from a b 1 2 show ?thesis by (simp add: example_decision_def)
qed

subsection \<open>Spending check\<close>

lemmas controller_defs =
  validateDecision_def validateDecision_try_def validateDecision_rest_def
  isDecisionTypeAllowed_def validateSpending_def validateInteractionLimits_def
  validateContent_def validateRiskLevel_def checkEscalationTriggers_def evaluateTrigger_def
  executeEscalationAction_def recordApprovedDecision_def recordViolation_def
  createValidationResult_def emit_def emit_throws_def num_or_zero_def truthy_num_def
  truthy_str_def str_or_def Let_def

lemmas example_defs =
  init_def example_limits_def example_decision_def no_listeners_def
  getDefaultEscalationTriggers_def getDefaultInteractionRules_def
  calculateInitialAutonomyScore_def

lemma overspent_state_eval:
  "currentSpending overspent_state = [(''SEI'', 50)]
   \<and> level (config overspent_state) = AUTONOMOUS
   \<and> dailyLimit (spending_limits (config overspent_state)) = 10
   \<and> perTransactionLimit (spending_limits (config overspent_state)) = 200
   \<and> approvalRequiredAbove (spending_limits (config overspent_state)) = 200
   \<and> escalation_triggers (config overspent_state) = getDefaultEscalationTriggers"
  by (simp add: overspent_state_def lowered_limit_def updateSpendingLimits_def spread_def
        controller_defs example_defs)


lemma reachable_overspent_state: "reachable overspent_state"
  unfolding overspent_state_def
  by (rule r_updateSpendingLimits) (rule r_validateDecision, rule r_init)

lemma validateDecision_spending:
  assumes "d_type d = FINANCIAL_TRANSACTION" and "level (config s) = AUTONOMOUS"
    and "truthy_num (estimated_cost d)" and "\<not> approved (validateSpending env d (noted d s))"
  shows "validateDecision env now rnd d s = (Inr (validateSpending env d (noted d s)), noted d s)"
  using assms
  by (simp add: validateDecision_def validateDecision_try_def isDecisionTypeAllowed_def
        noted_def Let_def)

lemma validateDecision_spending_skipped:
  assumes "d_type d = FINANCIAL_TRANSACTION" and "level (config s) = AUTONOMOUS"
    and "\<not> truthy_num (estimated_cost d)"
  shows "validateDecision_try env now rnd d s = validateDecision_rest env now rnd d (noted d s)"
  using assms
  by (simp add: validateDecision_try_def isDecisionTypeAllowed_def noted_def Let_def)

text \<open>Below \<open>Autonomous\<close> a \<open>FinancialTransaction\<close> decision never reaches the spending
  check: the type check denies it, with \<open>escalation_required = true\<close>.\<close>

lemma financial_denied_below_autonomous:
  assumes "d_type d = FINANCIAL_TRANSACTION" and "level (config s) \<noteq> AUTONOMOUS"
  shows "fst (validateDecision env now rnd d s) = Inr (escalated_denial type_denial s)"
proof -
  have "\<not> isDecisionTypeAllowed s (d_type d)"
    using assms by (cases "level (config s)") (simp_all add: isDecisionTypeAllowed_def)
  then show ?thesis
    by (simp add: validateDecision_type_denied escalated_denial_def)
qed

text \<open>
  Claim C1, as amended. For a \<open>FinancialTransaction\<close> decision at level \<open>Autonomous\<close> (the only
  level whose type check lets it through) whose \<open>estimated_cost\<close> is present and not 0,
  \<open>validateDecision\<close> returns a denial with \<open>escalation_required = true\<close> when the cost exceeds
  \<open>perTransactionLimit\<close>; otherwise when the sum of the amount already spent today in the
  decision's currency (\<open>'SEI'\<close> when it names none) and the cost, as the platform adds the
  two doubles, exceeds \<open>dailyLimit\<close>; otherwise when the cost exceeds
  \<open>approvalRequiredAbove\<close>. The three reasons differ. A decision whose
  \<open>estimated_cost\<close> is absent or 0 skips the spending check: evaluation goes on with the
  risk check.
\<close>

theorem spending_check_order:
  assumes "d_type d = FINANCIAL_TRANSACTION" and "level (config s) = AUTONOMOUS"
  shows
    "(truthy_num (estimated_cost d) \<longrightarrow>
       (let c = num_or_zero (estimated_cost d);
            lim = spending_limits (config s);
            spent = num_or_zero (map_of (currentSpending s) (str_or (currency (ctx d)) ''SEI''));
            m1 = [Lit ''Transaction exceeds per-transaction limit ('', Num c, Lit '' > '',
                  Num (perTransactionLimit lim), Lit '')''];
            total = num_add env spent c;
            m2 = [Lit ''Transaction would exceed daily limit ('', Num total, Lit '' > '',
                  Num (dailyLimit lim), Lit '')''];
            m3 = [Lit ''Transaction exceeds approval threshold ('', Num c, Lit '' > '',
                  Num (approvalRequiredAbove lim), Lit '')''];
            r = fst (validateDecision env now rnd d s)
        in (c > perTransactionLimit lim \<longrightarrow> r = Inr (escalated_denial m1 s))
         \<and> (\<not> c > perTransactionLimit lim \<and> total > dailyLimit lim \<longrightarrow>
              r = Inr (escalated_denial m2 s))
         \<and> (\<not> c > perTransactionLimit lim \<and> \<not> total > dailyLimit lim
              \<and> c > approvalRequiredAbove lim \<longrightarrow> r = Inr (escalated_denial m3 s))
         \<and> m1 \<noteq> m2 \<and> m1 \<noteq> m3 \<and> m2 \<noteq> m3))
     \<and> (\<not> truthy_num (estimated_cost d) \<longrightarrow>
          validateDecision_try env now rnd d s = validateDecision_rest env now rnd d (noted d s))"
proof -
  have skip: "\<not> truthy_num (estimated_cost d) \<longrightarrow>
          validateDecision_try env now rnd d s = validateDecision_rest env now rnd d (noted d s)"
    using assms validateDecision_spending_skipped by blast
  have chk: "\<not> approved (validateSpending env d (noted d s)) \<longrightarrow>
      fst (validateDecision env now rnd d s) = Inr (validateSpending env d (noted d s))"
    if "truthy_num (estimated_cost d)"
    using validateDecision_spending [OF assms that] by simp
  have "truthy_num (estimated_cost d) \<longrightarrow>
       (let c = num_or_zero (estimated_cost d);
            lim = spending_limits (config s);
            spent = num_or_zero (map_of (currentSpending s) (str_or (currency (ctx d)) ''SEI''));
            m1 = [Lit ''Transaction exceeds per-transaction limit ('', Num c, Lit '' > '',
                  Num (perTransactionLimit lim), Lit '')''];
            total = num_add env spent c;
            m2 = [Lit ''Transaction would exceed daily limit ('', Num total, Lit '' > '',
                  Num (dailyLimit lim), Lit '')''];
            m3 = [Lit ''Transaction exceeds approval threshold ('', Num c, Lit '' > '',
                  Num (approvalRequiredAbove lim), Lit '')''];
            r = fst (validateDecision env now rnd d s)
        in (c > perTransactionLimit lim \<longrightarrow> r = Inr (escalated_denial m1 s))
         \<and> (\<not> c > perTransactionLimit lim \<and> total > dailyLimit lim \<longrightarrow>
              r = Inr (escalated_denial m2 s))
         \<and> (\<not> c > perTransactionLimit lim \<and> \<not> total > dailyLimit lim
              \<and> c > approvalRequiredAbove lim \<longrightarrow> r = Inr (escalated_denial m3 s))
         \<and> m1 \<noteq> m2 \<and> m1 \<noteq> m3 \<and> m2 \<noteq> m3)"
  proof
    assume t: "truthy_num (estimated_cost d)"
    show "let c = num_or_zero (estimated_cost d);
            lim = spending_limits (config s);
            spent = num_or_zero (map_of (currentSpending s) (str_or (currency (ctx d)) ''SEI''));
            m1 = [Lit ''Transaction exceeds per-transaction limit ('', Num c, Lit '' > '',
                  Num (perTransactionLimit lim), Lit '')''];
            total = num_add env spent c;
            m2 = [Lit ''Transaction would exceed daily limit ('', Num total, Lit '' > '',
                  Num (dailyLimit lim), Lit '')''];
            m3 = [Lit ''Transaction exceeds approval threshold ('', Num c, Lit '' > '',
                  Num (approvalRequiredAbove lim), Lit '')''];
            r = fst (validateDecision env now rnd d s)
        in (c > perTransactionLimit lim \<longrightarrow> r = Inr (escalated_denial m1 s))
         \<and> (\<not> c > perTransactionLimit lim \<and> total > dailyLimit lim \<longrightarrow>
              r = Inr (escalated_denial m2 s))
         \<and> (\<not> c > perTransactionLimit lim \<and> \<not> total > dailyLimit lim
              \<and> c > approvalRequiredAbove lim \<longrightarrow> r = Inr (escalated_denial m3 s))
         \<and> m1 \<noteq> m2 \<and> m1 \<noteq> m3 \<and> m2 \<noteq> m3"
      using chk [OF t]
      by (simp add: Let_def validateSpending_def createValidationResult_def
            escalated_denial_def noted_def)
  qed
  with skip show ?thesis by blast
qed


theorem spending_check_order_witness:
  "d_type (payment 250) = FINANCIAL_TRANSACTION
   \<and> level (config (init AUTONOMOUS example_limits)) = AUTONOMOUS
   \<and> truthy_num (estimated_cost (payment 250))
   \<and> fst (validateDecision no_listeners 0 ''r'' (payment 250) (init AUTONOMOUS example_limits))
       = Inr (escalated_denial
               [Lit ''Transaction exceeds per-transaction limit ('', Num 250, Lit '' > '',
                Num 200, Lit '')''] (init AUTONOMOUS example_limits))
   \<and> truthy_num (estimated_cost (payment 150))
   \<and> fst (validateDecision no_listeners 0 ''r'' (payment 150) (init AUTONOMOUS example_limits))
       = Inr (escalated_denial
               [Lit ''Transaction would exceed daily limit ('', Num 150, Lit '' > '',
                Num 100, Lit '')''] (init AUTONOMOUS example_limits))
   \<and> level (config overspent_state) = AUTONOMOUS
   \<and> truthy_num (estimated_cost (payment 0)) = False
   \<and> validateDecision_try no_listeners 0 ''r'' (payment 0) overspent_state
       = validateDecision_rest no_listeners 0 ''r'' (payment 0)
           (noted (payment 0) overspent_state)"
proof -
  let ?s = "init AUTONOMOUS example_limits"
  have t: "d_type (payment c) = FINANCIAL_TRANSACTION" for c
    by (simp add: payment_def example_decision_def)
  have l: "level (config ?s) = AUTONOMOUS" by (simp add: init_def)
  have l': "level (config overspent_state) = AUTONOMOUS"
    using overspent_state_eval by simp
  have c: "truthy_num (estimated_cost (payment 250))" "truthy_num (estimated_cost (payment 150))"
    "\<not> truthy_num (estimated_cost (payment 0))"
    by (simp_all add: payment_def example_decision_def truthy_num_def)
  have v: "num_or_zero (estimated_cost (payment x)) = x"
    "str_or (currency (ctx (payment x))) ''SEI'' = ''SEI''" for x
    by (simp_all add: payment_def example_decision_def num_or_zero_def str_or_def)
  have lim: "perTransactionLimit (spending_limits (config ?s)) = 200"
    "dailyLimit (spending_limits (config ?s)) = 100" "currentSpending ?s = []"
    by (simp_all add: init_def example_limits_def)
  have spent: "num_or_zero (map_of (currentSpending ?s) ''SEI'') = 0"
    by (simp add: lim num_or_zero_def)
  from spending_check_order [OF t l, of 250 no_listeners 0 "''r''"] c(1)
  have 1: "fst (validateDecision no_listeners 0 ''r'' (payment 250) ?s)
       = Inr (escalated_denial
               [Lit ''Transaction exceeds per-transaction limit ('', Num 250, Lit '' > '',
                Num 200, Lit '')''] ?s)"
    by (simp add: Let_def v lim)
  from spending_check_order [OF t l, of 150 no_listeners 0 "''r''"] c(2)
  have 2: "fst (validateDecision no_listeners 0 ''r'' (payment 150) ?s)
       = Inr (escalated_denial
               [Lit ''Transaction would exceed daily limit ('', Num 150, Lit '' > '',
                Num 100, Lit '')''] ?s)"
    by (simp add: Let_def v lim(1,2) spent)
  from spending_check_order [OF t l', of 0 no_listeners 0 "''r''"] c(3)
  have 3: "validateDecision_try no_listeners 0 ''r'' (payment 0) overspent_state
       = validateDecision_rest no_listeners 0 ''r'' (payment 0)
           (noted (payment 0) overspent_state)"
    by simp
  from t l l' c 1 2 3 show ?thesis by simp
qed

text \<open>
  Claim C1 as stated fails: the check does not apply to every \<open>FinancialTransaction\<close>
  decision. In a reachable state with 50 SEI spent and a daily limit of 10, a payment with
  \<open>estimated_cost = 0\<close> has \<open>dailySpent + estimated_cost > dailyLimit\<close>, and is approved.
\<close>

theorem spending_check_counterexample:
  "reachable overspent_state
   \<and> d_type (payment 0) = FINANCIAL_TRANSACTION
   \<and> estimated_cost (payment 0) = Some 0
   \<and> \<not> 0 > perTransactionLimit (spending_limits (config overspent_state))
   \<and> num_add no_listeners (num_or_zero (map_of (currentSpending overspent_state) ''SEI'')) 0
       > dailyLimit (spending_limits (config overspent_state))
   \<and> fst (validateDecision no_listeners 0 ''r'' (payment 0) overspent_state)
       = Inr \<lparr>approved = True,
              reason = Some [Lit ''Decision approved within autonomy parameters''],
              conditions = None, escalation_required = None, vr_approval_timeout = None\<rparr>"
proof -
  have e: "currentSpending overspent_state = [(''SEI'', 50)]"
    "level (config overspent_state) = AUTONOMOUS"
    "dailyLimit (spending_limits (config overspent_state)) = 10"
    "perTransactionLimit (spending_limits (config overspent_state)) = 200"
    "escalation_triggers (config overspent_state) = getDefaultEscalationTriggers"
    using overspent_state_eval by simp_all
  have "fst (validateDecision no_listeners 0 ''r'' (payment 0) overspent_state)
       = Inr \<lparr>approved = True,
              reason = Some [Lit ''Decision approved within autonomy parameters''],
              conditions = None, escalation_required = None, vr_approval_timeout = None\<rparr>"
    by (simp add: controller_defs e payment_def example_decision_def no_listeners_def
          getDefaultEscalationTriggers_def)
  then show ?thesis
    using reachable_overspent_state e
    by (simp add: payment_def example_decision_def num_or_zero_def)
qed

subsection \<open>Committing an approved decision\<close>

lemma currentSpending_emit [simp]:
  "currentSpending (snd (emit env e s)) = currentSpending s"
  "interactionCounts (snd (emit env e s)) = interactionCounts s"
  by simp_all

text \<open>
  Claim C3, as amended. \<open>recordApprovedDecision\<close> adds \<open>estimated_cost\<close> to
  \<open>dailySpent[currency]\<close> for a decision of any type that carries a cost (present, not 0) and a
  currency (present, not empty), and leaves the spending of every other currency as it was;
  a decision without a cost changes no spending. It adds 1 to the count of the platform's
  current hour bucket for a \<open>PlatformInteraction\<close> decision that names a platform, leaving
  the other buckets; a decision of another type changes no count. Both additions are the
  platform's additions of doubles: what is stored is the rounded sum.
\<close>

theorem commit_counters:
  "(truthy_num (estimated_cost d) \<and> truthy_str (currency (ctx d)) \<longrightarrow>
      map_of (currentSpending (snd (recordApprovedDecision env now d s))) =
        (map_of (currentSpending s))
          (the (currency (ctx d)) \<mapsto>
             num_add env (num_or_zero (map_of (currentSpending s) (the (currency (ctx d)))))
               (the (estimated_cost d))))
   \<and> (\<not> truthy_num (estimated_cost d) \<longrightarrow>
        currentSpending (snd (recordApprovedDecision env now d s)) = currentSpending s)
   \<and> (d_type d = PLATFORM_INTERACTION \<and> truthy_str (platform (ctx d)) \<longrightarrow>
        map_of (interactionCounts (snd (recordApprovedDecision env now d s))) =
          (map_of (interactionCounts s))
            (hourlyKey (the (platform (ctx d))) now \<mapsto>
               num_add env
                 (num_or_zero (map_of (interactionCounts s) (hourlyKey (the (platform (ctx d))) now)))
                 1))
   \<and> (d_type d \<noteq> PLATFORM_INTERACTION \<longrightarrow>
        interactionCounts (snd (recordApprovedDecision env now d s)) = interactionCounts s)"
  by (simp add: recordApprovedDecision_def Let_def AList.update_conv')

theorem commit_counters_witness:
  "truthy_num (estimated_cost paid_post) \<and> truthy_str (currency (ctx paid_post))
   \<and> d_type paid_post \<noteq> PLATFORM_INTERACTION
   \<and> map_of (currentSpending
         (snd (recordApprovedDecision no_listeners 0 paid_post (init AUTONOMOUS example_limits))))
       = [''SEI'' \<mapsto> 5]
   \<and> interactionCounts
         (snd (recordApprovedDecision no_listeners 0 paid_post (init AUTONOMOUS example_limits)))
       = []"
proof -
  let ?s = "init AUTONOMOUS example_limits"
  have h: "truthy_num (estimated_cost paid_post)" "truthy_str (currency (ctx paid_post))"
    "d_type paid_post \<noteq> PLATFORM_INTERACTION"
    by (simp_all add: paid_post_def example_decision_def truthy_num_def truthy_str_def)
  have v: "the (currency (ctx paid_post)) = ''SEI''" "the (estimated_cost paid_post) = 5"
    by (simp_all add: paid_post_def example_decision_def)
  have s: "currentSpending ?s = []" "interactionCounts ?s = []"
    by (simp_all add: init_def)
  from commit_counters [of paid_post no_listeners 0 ?s] h
  show ?thesis by (simp add: v s num_or_zero_def)
qed

text \<open>
  Claim C3 as stated fails: spending is not counted for financial decisions only. A
  \<open>ContentCreation\<close> decision with a cost of 5 SEI is approved at level \<open>Autonomous\<close>, and
  committing it raises the SEI spent from nothing to 5.
\<close>

theorem commit_counters_counterexample:
  "d_type paid_post = CONTENT_CREATION
   \<and> currentSpending (init AUTONOMOUS example_limits) = []
   \<and> approved_result (fst (validateDecision no_listeners 0 ''r'' paid_post
                              (init AUTONOMOUS example_limits)))
   \<and> currentSpending (snd (validateDecision no_listeners 0 ''r'' paid_post
                              (init AUTONOMOUS example_limits))) = [(''SEI'', 5)]"
  by (simp add: paid_post_def approved_result_def controller_defs example_defs
      ascii_toLowerCase_def ascii_toLowerCase_char_def)

subsection \<open>Content policy\<close>

lemma recordViolation_recorded:
  "violationHistory (snd (recordViolation env v s)) \<noteq> []
   \<and> last (violationHistory (snd (recordViolation env v s))) = v
   \<and> violations (metrics (snd (recordViolation env v s))) = Suc (violations (metrics s))"
  by (auto simp add: recordViolation_def emit_def split: option.splits)

lemma recordViolation_config [simp]:
  "config (snd (recordViolation env v s)) = config s"
  by (auto simp add: recordViolation_def emit_def split: option.splits)

lemma fst_recordViolation:
  "fst (recordViolation env v s) =
     (case emit_throws env ''guardrail_violation'' of Some x \<Rightarrow> Inl x | None \<Rightarrow> Inr ())"
  by (auto simp add: recordViolation_def emit_def split: option.splits)

lemma validateContent_match:
  assumes "first_forbidden env d s = Some f"
  shows "snd (validateContent env now d s) = snd (recordViolation env (content_violation now d f) s)"
    and "emit_throws env ''guardrail_violation'' = None \<Longrightarrow>
         fst (validateContent env now d s) =
           Inr \<lparr>approved = False, reason = Some [Lit (''Content contains forbidden type: '' @ f)],
                conditions = None, escalation_required = None, vr_approval_timeout = None\<rparr>"
    and "emit_throws env ''guardrail_violation'' = Some x \<Longrightarrow>
         fst (validateContent env now d s) = Inl x"
  using assms fst_recordViolation [of env "content_violation now d f" s]
  by (auto simp add: validateContent_def first_forbidden_def content_violation_def
        createValidationResult_def split: prod.splits sum.splits)


lemma validateDecision_content_match:
  assumes "d_type d = CONTENT_CREATION" and "isDecisionTypeAllowed s CONTENT_CREATION"
    and "first_forbidden env d s = Some f"
  shows "violationHistory (snd (validateDecision env now rnd d s)) =
           violationHistory (snd (recordViolation env (content_violation now d f) (noted d s)))"
    and "metrics (snd (validateDecision env now rnd d s)) =
           metrics (snd (recordViolation env (content_violation now d f) (noted d s)))"
    and "emit_throws env ''guardrail_violation'' = None \<Longrightarrow>
         fst (validateDecision env now rnd d s) =
           Inr \<lparr>approved = False, reason = Some [Lit (''Content contains forbidden type: '' @ f)],
                conditions = None, escalation_required = None, vr_approval_timeout = None\<rparr>"
proof -
  have a: "isDecisionTypeAllowed (noted d s) (d_type d)"
    using assms(1,2) by (simp add: isDecisionTypeAllowed_def noted_def)
  have f: "first_forbidden env d (noted d s) = Some f"
    using assms(3) by (simp add: first_forbidden_def noted_def)
  note vc = validateContent_match [OF f, where now = now]
  have tr: "validateDecision_try env now rnd d s =
      (case fst (validateContent env now d (noted d s)) of
         Inl e \<Rightarrow> (Inl e, snd (validateContent env now d (noted d s)))
       | Inr c \<Rightarrow> if \<not> approved c then (Inr c, snd (validateContent env now d (noted d s)))
                  else validateDecision_rest env now rnd d (snd (validateContent env now d (noted d s))))"
    using a assms(1)
    by (cases "validateContent env now d (noted d s)")
       (simp add: validateDecision_try_def Let_def noted_def split: sum.splits)
  show "violationHistory (snd (validateDecision env now rnd d s)) =
           violationHistory (snd (recordViolation env (content_violation now d f) (noted d s)))"
    using vc(1) vc(2) vc(3)
    by (cases "emit_throws env ''guardrail_violation''")
       (simp_all add: validateDecision_def tr emit_def split: option.splits)
  show "metrics (snd (validateDecision env now rnd d s)) =
           metrics (snd (recordViolation env (content_violation now d f) (noted d s)))"
    using vc(1) vc(2) vc(3)
    by (cases "emit_throws env ''guardrail_violation''")
       (simp_all add: validateDecision_def tr emit_def split: option.splits)
  show "fst (validateDecision env now rnd d s) =
           Inr \<lparr>approved = False, reason = Some [Lit (''Content contains forbidden type: '' @ f)],
                conditions = None, escalation_required = None, vr_approval_timeout = None\<rparr>"
    if "emit_throws env ''guardrail_violation'' = None"
    using vc(2) [OF that] by (simp add: validateDecision_def tr)
qed

lemma first_forbidden_exists:
  "(\<exists>forbidden \<in> set (forbidden_content_types (interaction_rules (config s))).
      str_includes (toLowerCase env (description d)) (toLowerCase env forbidden))
   = (\<exists>f. first_forbidden env d s = Some f)"
proof -
  let ?P = "\<lambda>forbidden. str_includes (toLowerCase env (description d)) (toLowerCase env forbidden)"
  let ?xs = "forbidden_content_types (interaction_rules (config s))"
  have "(\<exists>f. List.find ?P ?xs = Some f) = (List.find ?P ?xs \<noteq> None)" by auto
  also have "\<dots> = (\<exists>x \<in> set ?xs. ?P x)" by (auto simp add: find_None_iff)
  finally show ?thesis by (simp add: first_forbidden_def)
qed

text \<open>
  Claim C6, as amended. At a level that allows \<open>ContentCreation\<close> (\<open>SemiAutonomous\<close> or
  \<open>Autonomous\<close>), for a \<open>ContentCreation\<close> decision whose description, converted by
  \<open>toLowerCase\<close>, contains an entry of \<open>forbidden_content_types\<close> converted by
  \<open>toLowerCase\<close>, \<open>validateDecision\<close> records a
  \<open>GuardrailViolation\<close> of type \<open>content_policy\<close> with severity \<open>error\<close> and action
  \<open>blocked\<close> for the first such entry, whatever the listeners do. When no listener of
  \<open>guardrail_violation\<close> throws, it returns a denial whose reason names that entry and whose
  \<open>escalation_required\<close> is not set: a content denial does not ask for escalation.
\<close>

theorem content_policy_denial:
  assumes "d_type d = CONTENT_CREATION"
    and "level (config s) = SEMI_AUTONOMOUS \<or> level (config s) = AUTONOMOUS"
    and "\<exists>forbidden \<in> set (forbidden_content_types (interaction_rules (config s))).
           str_includes (toLowerCase env (description d)) (toLowerCase env forbidden)"
  shows "\<exists>f. first_forbidden env d s = Some f
           \<and> violationHistory (snd (validateDecision env now rnd d s)) \<noteq> []
           \<and> last (violationHistory (snd (validateDecision env now rnd d s)))
               = content_violation now d f
           \<and> violations (metrics (snd (validateDecision env now rnd d s)))
               = Suc (violations (metrics s))
           \<and> (emit_throws env ''guardrail_violation'' = None \<longrightarrow>
                fst (validateDecision env now rnd d s) =
                  Inr \<lparr>approved = False,
                       reason = Some [Lit (''Content contains forbidden type: '' @ f)],
                       conditions = None, escalation_required = None,
                       vr_approval_timeout = None\<rparr>)"
proof -
  from assms(3) obtain f where f: "first_forbidden env d s = Some f"
    using first_forbidden_exists by blast
  have a: "isDecisionTypeAllowed s CONTENT_CREATION"
    using assms(2) by (auto simp add: isDecisionTypeAllowed_def)
  note m = validateDecision_content_match [OF assms(1) a f, of now rnd]
  note r = recordViolation_recorded [of env "content_violation now d f" "noted d s"]
  have "violations (metrics (noted d s)) = violations (metrics s)"
    by (simp add: noted_def)
  with m r f show ?thesis by simp
qed


lemma toLowerCase_examples:
  "ascii_toLowerCase ''Win big: this is SPAM'' = ''win big: this is spam''"
  "ascii_toLowerCase ''spam'' = ''spam''"
  "ascii_toLowerCase ''harassment'' = ''harassment''"
  "ascii_toLowerCase ''financial_advice'' = ''financial_advice''"
  by code_simp+

lemma first_forbidden_spam_post:
  "first_forbidden no_listeners spam_post (init l example_limits) = Some ''spam''"
  by (simp add: first_forbidden_def spam_post_def example_defs toLowerCase_examples)

theorem content_policy_denial_witness:
  "d_type spam_post = CONTENT_CREATION
   \<and> level (config (init AUTONOMOUS example_limits)) = AUTONOMOUS
   \<and> first_forbidden no_listeners spam_post (init AUTONOMOUS example_limits) = Some ''spam''
   \<and> emit_throws no_listeners ''guardrail_violation'' = None
   \<and> last (violationHistory
              (snd (validateDecision no_listeners 0 ''r'' spam_post
                      (init AUTONOMOUS example_limits))))
        = content_violation 0 spam_post ''spam''
   \<and> fst (validateDecision no_listeners 0 ''r'' spam_post (init AUTONOMOUS example_limits)) =
        Inr \<lparr>approved = False,
             reason = Some [Lit ''Content contains forbidden type: spam''],
             conditions = None, escalation_required = None, vr_approval_timeout = None\<rparr>"
proof -
  let ?s = "init AUTONOMOUS example_limits"
  have t: "d_type spam_post = CONTENT_CREATION"
    by (simp add: spam_post_def example_decision_def)
  have l: "level (config ?s) = AUTONOMOUS" by (simp add: init_def)
  have f: "first_forbidden no_listeners spam_post ?s = Some ''spam''" by (rule first_forbidden_spam_post)
  have e: "\<exists>forbidden \<in> set (forbidden_content_types (interaction_rules (config ?s))).
           str_includes (toLowerCase no_listeners (description spam_post)) (toLowerCase no_listeners forbidden)"
    using f first_forbidden_exists by blast
  have q: "emit_throws no_listeners ''guardrail_violation'' = None"
    by (simp add: emit_throws_def no_listeners_def)
  from content_policy_denial [OF t _ e, of 0 "''r''"] l f q
  have "last (violationHistory (snd (validateDecision no_listeners 0 ''r'' spam_post ?s)))
        = content_violation 0 spam_post ''spam''
     \<and> fst (validateDecision no_listeners 0 ''r'' spam_post ?s) =
        Inr \<lparr>approved = False,
             reason = Some [Lit ''Content contains forbidden type: spam''],
             conditions = None, escalation_required = None, vr_approval_timeout = None\<rparr>"
    by auto
  with t l f q show ?thesis by simp
qed

text \<open>
  Claim C6 as stated fails twice. At level \<open>Autonomous\<close> the denial of a post that contains
  the forbidden entry \<open>spam\<close> leaves \<open>escalation_required\<close> unset, not \<open>true\<close>. At level
  \<open>Restricted\<close> the same post is turned down by the type check, before the content check,
  and no violation is recorded.
\<close>

theorem content_policy_counterexample:
  "d_type spam_post = CONTENT_CREATION
   \<and> first_forbidden no_listeners spam_post (init AUTONOMOUS example_limits) = Some ''spam''
   \<and> fst (validateDecision no_listeners 0 ''r'' spam_post (init AUTONOMOUS example_limits)) =
        Inr \<lparr>approved = False,
             reason = Some [Lit ''Content contains forbidden type: spam''],
             conditions = None, escalation_required = None, vr_approval_timeout = None\<rparr>
   \<and> first_forbidden no_listeners spam_post (init RESTRICTED example_limits) = Some ''spam''
   \<and> violationHistory
        (snd (validateDecision no_listeners 0 ''r'' spam_post (init RESTRICTED example_limits)))
        = []"
proof -
  have 1: "fst (validateDecision no_listeners 0 ''r'' spam_post (init AUTONOMOUS example_limits)) =
        Inr \<lparr>approved = False,
             reason = Some [Lit ''Content contains forbidden type: spam''],
             conditions = None, escalation_required = None, vr_approval_timeout = None\<rparr>"
    by (simp add: spam_post_def controller_defs example_defs toLowerCase_examples)
  have 2: "violationHistory
        (snd (validateDecision no_listeners 0 ''r'' spam_post (init RESTRICTED example_limits)))
        = []"
    by (simp add: spam_post_def controller_defs example_defs)
  from 1 2 first_forbidden_spam_post show ?thesis
    by (simp add: spam_post_def example_decision_def)
qed

subsection \<open>Escalation triggers\<close>

lemma emit_returns:
  "listeners_return env \<Longrightarrow> event_name e \<noteq> ''error'' \<Longrightarrow> fst (emit env e s) = Inr ()"
  by (simp add: emit_def emit_throws_def listeners_return_def)

lemma emit_returns_eq:
  "listeners_return env \<Longrightarrow> event_name e \<noteq> ''error'' \<Longrightarrow>
   emit env e s = (Inr (), s\<lparr>emitted := emitted s @ [e]\<rparr>)"
  by (simp add: emit_def emit_throws_def listeners_return_def)

lemma updateAutonomyLevel_returns:
  "listeners_return env \<Longrightarrow> fst (updateAutonomyLevel env now l why s) = Inr ()"
  by (simp add: updateAutonomyLevel_def Let_def emit_returns_eq)

lemma cancelPending_returns:
  "listeners_return env \<Longrightarrow> fst (cancelPending env xs s) = Inr ()"
proof (induction xs arbitrary: s)
  case Nil
  then show ?case by simp
next
  case (Cons x xs)
  obtain i a where x: "x = (i, a)" by (cases x)
  from Cons show ?case by (simp add: x emit_returns_eq)
qed

lemma triggerEmergencyStop_returns:
  assumes "listeners_return env"
  shows "fst (triggerEmergencyStop env now why s) = Inr ()"
proof -
  let ?u = "updateAutonomyLevel env now RESTRICTED (''Emergency stop: '' @ why) s"
  let ?c = "cancelPending env (pendingApprovals (snd ?u)) (snd ?u)"
  have 1: "fst ?u = Inr ()" using assms by (rule updateAutonomyLevel_returns)
  have 2: "fst ?c = Inr ()" using assms by (rule cancelPending_returns)
  show ?thesis
    using 1 2 assms
    by (cases ?u; cases ?c) (simp add: triggerEmergencyStop_def emit_returns_eq)
qed

lemma recordViolation_returns:
  "listeners_return env \<Longrightarrow> fst (recordViolation env v s) = Inr ()"
  by (simp add: recordViolation_def emit_returns_eq)

lemma executeEscalationAction_returns:
  "listeners_return env \<Longrightarrow> fst (executeEscalationAction env now rnd t d s) = Inr ()"
  by (cases "action t")
     (simp_all add: executeEscalationAction_def Let_def triggerEmergencyStop_returns
        updateAutonomyLevel_returns recordViolation_returns emit_returns)

lemma escalations_updateAutonomyLevel:
  "escalations (metrics (snd (updateAutonomyLevel env now l why s))) = escalations (metrics s)"
  by (simp add: updateAutonomyLevel_def Let_def emit_def split: option.splits)

lemma escalations_cancelPending:
  "escalations (metrics (snd (cancelPending env xs s))) = escalations (metrics s)"
proof (induction xs arbitrary: s)
  case Nil
  then show ?case by simp
next
  case (Cons x xs)
  obtain i a where x: "x = (i, a)" by (cases x)
  show ?case by (simp add: x emit_def Cons.IH split: option.splits)
qed

lemma escalations_triggerEmergencyStop:
  "escalations (metrics (snd (triggerEmergencyStop env now why s))) = escalations (metrics s)"
proof -
  let ?u = "updateAutonomyLevel env now RESTRICTED (''Emergency stop: '' @ why) s"
  let ?c = "cancelPending env (pendingApprovals (snd ?u)) (snd ?u)"
  have 1: "escalations (metrics (snd ?u)) = escalations (metrics s)"
    by (rule escalations_updateAutonomyLevel)
  have 2: "escalations (metrics (snd ?c)) = escalations (metrics (snd ?u))"
    by (rule escalations_cancelPending)
  show ?thesis
    using 1 2
    by (cases ?u; cases ?c) (auto simp add: triggerEmergencyStop_def split: sum.splits)
qed

lemma escalations_requestApproval:
  "escalations (metrics (snd (requestApproval env now rnd d s))) = escalations (metrics s)"
  by (simp add: requestApproval_def Let_def emit_def split: option.splits)

lemma escalations_recordViolation:
  "escalations (metrics (snd (recordViolation env v s))) = escalations (metrics s)"
  by (auto simp add: recordViolation_def emit_def split: option.splits)

lemma escalations_executeEscalationAction:
  "escalations (metrics (snd (executeEscalationAction env now rnd t d s)))
     = Suc (escalations (metrics s))"
  by (cases "action t")
     (simp_all add: executeEscalationAction_def Let_def escalations_triggerEmergencyStop
        escalations_requestApproval escalations_updateAutonomyLevel escalations_recordViolation)

lemma evaluateTrigger_iff:
  "evaluateTrigger t d =
     (t_type t = SPENDING_THRESHOLD \<and> num_or_zero (estimated_cost d) > threshold t)"
  by (cases "t_type t") (simp_all add: evaluateTrigger_def)

lemma find_first_match:
  "xs = pre @ t # post \<Longrightarrow> (\<forall>u \<in> set pre. \<not> P u) \<Longrightarrow> P t \<Longrightarrow> List.find P xs = Some t"
  by (induction pre arbitrary: xs) auto

lemma checkEscalationTriggers_match:
  assumes "List.find (\<lambda>t. evaluateTrigger t d) (escalation_triggers (config s)) = Some t"
  shows "snd (checkEscalationTriggers env now rnd d s)
           = snd (executeEscalationAction env now rnd t d s)"
    and "fst (executeEscalationAction env now rnd t d s) = Inr () \<Longrightarrow>
         fst (checkEscalationTriggers env now rnd d s) =
           Inr (escalated_denial
                  [Lit (''Escalation trigger activated: '' @ TriggerType_value (t_type t))]
                  (snd (executeEscalationAction env now rnd t d s)))"
    and "\<not> approved_result (fst (checkEscalationTriggers env now rnd d s))"
    and "\<forall>r. fst (checkEscalationTriggers env now rnd d s) = Inr r \<longrightarrow>
           escalation_required r = Some True"
  using assms
  by (cases "executeEscalationAction env now rnd t d s";
      auto simp add: checkEscalationTriggers_def createValidationResult_def
        escalated_denial_def approved_result_def split: sum.splits)+


lemma validateContent_config [simp]:
  "config (snd (validateContent env now d s)) = config s"
proof (cases "first_forbidden env d s")
  case None
  then show ?thesis by (simp add: validateContent_def first_forbidden_def)
next
  case (Some f)
  from validateContent_match(1) [OF Some] show ?thesis by simp
qed

lemma validateDecision_rest_not_approved:
  assumes "List.find (\<lambda>t. evaluateTrigger t d) (escalation_triggers (config s)) = Some t"
  shows "\<not> approved_result (fst (validateDecision_rest env now rnd d s))"
  using checkEscalationTriggers_match(3,4) [OF assms, of env now rnd]
  by (cases "checkEscalationTriggers env now rnd d s")
     (auto simp add: validateDecision_rest_def Let_def approved_result_def split: sum.splits)

lemma validateDecision_try_not_approved:
  assumes "List.find (\<lambda>t. evaluateTrigger t d) (escalation_triggers (config s)) = Some t"
  shows "\<not> approved_result (fst (validateDecision_try env now rnd d s))"
proof -
  let ?s = "noted d s"
  let ?c = "validateContent env now d ?s"
  have 1: "List.find (\<lambda>t. evaluateTrigger t d) (escalation_triggers (config ?s)) = Some t"
    using assms by (simp add: noted_def)
  have 2: "List.find (\<lambda>t. evaluateTrigger t d) (escalation_triggers (config (snd ?c))) = Some t"
    using 1 by simp
  note a = validateDecision_rest_not_approved [OF 1, of env now rnd]
  note b = validateDecision_rest_not_approved [OF 2, of env now rnd]
  show ?thesis
    using a b
    by (cases ?c)
       (auto simp add: validateDecision_try_def Let_def approved_result_def
          createValidationResult_def noted_def split: sum.splits)
qed

lemma validateDecision_not_approved:
  assumes "List.find (\<lambda>t. evaluateTrigger t d) (escalation_triggers (config s)) = Some t"
  shows "\<not> approved_result (fst (validateDecision env now rnd d s))"
  using validateDecision_try_not_approved [OF assms, of env now rnd]
  by (cases "validateDecision_try env now rnd d s")
     (auto simp add: validateDecision_def approved_result_def createValidationResult_def
        emit_def split: sum.splits option.splits)

text \<open>
  Claim C5, as amended. A \<open>SpendingThreshold\<close> trigger matches exactly when the estimated
  cost (0 when absent) exceeds its threshold; a trigger of any other type, \<open>ErrorRate\<close>
  included, never matches. In \<open>checkEscalationTriggers\<close> the first matching trigger in
  configuration order wins: the state afterwards is that of its one escalation action, the
  \<open>escalations\<close> count has grown by exactly one, and the result, when the action did not
  throw (no listener throws), is a denial with \<open>escalation_required = true\<close> that names the
  trigger's type. When no trigger matches nothing is executed. Whenever a configured trigger
  matches, \<open>validateDecision\<close> does not return an approval in that call.
\<close>

theorem escalation_first_match:
  "evaluateTrigger t d =
     (t_type t = SPENDING_THRESHOLD \<and> num_or_zero (estimated_cost d) > threshold t)
   \<and> (escalation_triggers (config s) = pre @ t # post
        \<and> (\<forall>u \<in> set pre. \<not> evaluateTrigger u d) \<and> evaluateTrigger t d \<longrightarrow>
        snd (checkEscalationTriggers env now rnd d s)
          = snd (executeEscalationAction env now rnd t d s)
        \<and> escalations (metrics (snd (checkEscalationTriggers env now rnd d s)))
            = Suc (escalations (metrics s))
        \<and> (listeners_return env \<longrightarrow>
             fst (checkEscalationTriggers env now rnd d s) =
               Inr (escalated_denial
                      [Lit (''Escalation trigger activated: '' @ TriggerType_value (t_type t))]
                      (snd (executeEscalationAction env now rnd t d s)))))
   \<and> ((\<forall>u \<in> set (escalation_triggers (config s)). \<not> evaluateTrigger u d) \<longrightarrow>
        checkEscalationTriggers env now rnd d s
          = (Inr (createValidationResult True None None s), s))
   \<and> ((\<exists>u \<in> set (escalation_triggers (config s)). evaluateTrigger u d) \<longrightarrow>
        \<not> approved_result (fst (validateDecision env now rnd d s)))"
proof -
  let ?P = "\<lambda>t. evaluateTrigger t d"
  let ?ts = "escalation_triggers (config s)"
  have first: "snd (checkEscalationTriggers env now rnd d s)
          = snd (executeEscalationAction env now rnd t d s)
        \<and> escalations (metrics (snd (checkEscalationTriggers env now rnd d s)))
            = Suc (escalations (metrics s))
        \<and> (listeners_return env \<longrightarrow>
             fst (checkEscalationTriggers env now rnd d s) =
               Inr (escalated_denial
                      [Lit (''Escalation trigger activated: '' @ TriggerType_value (t_type t))]
                      (snd (executeEscalationAction env now rnd t d s))))"
    if h: "?ts = pre @ t # post" "\<forall>u \<in> set pre. \<not> ?P u" "?P t"
  proof -
    have f: "List.find ?P ?ts = Some t" using h by (rule find_first_match)
    note m = checkEscalationTriggers_match [OF f, of env now rnd]
    show ?thesis
      using m(1) m(2) executeEscalationAction_returns [of env now rnd t d s]
        escalations_executeEscalationAction [of env now rnd t d s]
      by simp
  qed
  have none: "checkEscalationTriggers env now rnd d s
          = (Inr (createValidationResult True None None s), s)"
    if "\<forall>u \<in> set ?ts. \<not> ?P u"
  proof -
    have "List.find ?P ?ts = None" using that by (simp add: find_None_iff)
    then show ?thesis by (simp add: checkEscalationTriggers_def)
  qed
  have some: "\<not> approved_result (fst (validateDecision env now rnd d s))"
    if "\<exists>u \<in> set ?ts. ?P u"
  proof -
    have "List.find ?P ?ts \<noteq> None" using that by (auto simp add: find_None_iff)
    then obtain u where "List.find ?P ?ts = Some u" by auto
    then show ?thesis by (rule validateDecision_not_approved)
  qed
  from first none some show ?thesis
    using evaluateTrigger_iff [of t d] by blast
qed


lemma reducing_state_eval:
  "escalation_triggers (config reducing_state) = getDefaultEscalationTriggers @ [reduce_trigger]
   \<and> escalations (metrics reducing_state) = 0
   \<and> level (config reducing_state) = AUTONOMOUS"
  by (simp add: reducing_state_def addEscalationTrigger_def init_def)

theorem escalation_first_match_witness:
  "escalation_triggers (config reducing_state) = getDefaultEscalationTriggers @ reduce_trigger # []
   \<and> evaluateTrigger reduce_trigger (payment 60)
   \<and> listeners_return no_listeners
   \<and> escalations (metrics (snd (checkEscalationTriggers no_listeners 0 ''r'' (payment 60)
                                    reducing_state))) = 1
   \<and> fst (checkEscalationTriggers no_listeners 0 ''r'' (payment 60) reducing_state) =
        Inr (escalated_denial [Lit ''Escalation trigger activated: spending_threshold'']
               (snd (executeEscalationAction no_listeners 0 ''r'' reduce_trigger (payment 60)
                       reducing_state)))
   \<and> \<not> approved_result (fst (validateDecision no_listeners 0 ''r'' (payment 60)
                                  reducing_state))"
proof -
  have ts: "escalation_triggers (config reducing_state)
              = getDefaultEscalationTriggers @ reduce_trigger # []"
    using reducing_state_eval by simp
  have pre: "\<forall>u \<in> set getDefaultEscalationTriggers. \<not> evaluateTrigger u (payment 60)"
    by (simp add: getDefaultEscalationTriggers_def evaluateTrigger_def payment_def
          example_decision_def num_or_zero_def)
  have t: "evaluateTrigger reduce_trigger (payment 60)"
    by (simp add: reduce_trigger_def evaluateTrigger_def payment_def example_decision_def
          num_or_zero_def)
  have q: "listeners_return no_listeners"
    by (simp add: listeners_return_def no_listeners_def)
  have m: "\<exists>u \<in> set (escalation_triggers (config reducing_state)).
             evaluateTrigger u (payment 60)"
    using ts t by simp
  have e: "escalations (metrics reducing_state) = 0"
    using reducing_state_eval by simp
  have v: "TriggerType_value (t_type reduce_trigger) = ''spending_threshold''"
    by (simp add: reduce_trigger_def)
  from escalation_first_match [of reduce_trigger "payment 60" reducing_state
      getDefaultEscalationTriggers "[]" no_listeners 0 "''r''"] ts pre t q m e v
  show ?thesis by (simp add: escalations_executeEscalationAction)
qed

text \<open>
  Claim C5 as stated fails for \<open>ErrorRate\<close>: the controller keeps no error rate and an
  \<open>ErrorRate\<close> trigger never matches. With the threshold \<open>- 1\<close>, which every rate exceeds, as
  the only configured trigger, the trigger does not match and the decision is approved.
\<close>

theorem escalation_error_rate_counterexample:
  "t_type error_rate_trigger = ERROR_RATE
   \<and> threshold error_rate_trigger = - 1
   \<and> escalation_triggers (config error_rate_state) = [error_rate_trigger]
   \<and> evaluateTrigger error_rate_trigger (payment 60) = False
   \<and> fst (validateDecision no_listeners 0 ''r'' (payment 60) error_rate_state)
       = Inr \<lparr>approved = True,
              reason = Some [Lit ''Decision approved within autonomy parameters''],
              conditions = None, escalation_required = None, vr_approval_timeout = None\<rparr>"
proof -
  have e: "escalation_triggers (config error_rate_state) = [error_rate_trigger]"
    "level (config error_rate_state) = AUTONOMOUS"
    "spending_limits (config error_rate_state) = example_limits"
    "currentSpending error_rate_state = []"
    by (simp_all add: error_rate_state_def addEscalationTrigger_def
          removeEscalationTrigger_def init_def getDefaultEscalationTriggers_def)
  have "fst (validateDecision no_listeners 0 ''r'' (payment 60) error_rate_state)
       = Inr \<lparr>approved = True,
              reason = Some [Lit ''Decision approved within autonomy parameters''],
              conditions = None, escalation_required = None, vr_approval_timeout = None\<rparr>"
    by (simp add: controller_defs e payment_def example_decision_def example_limits_def
          error_rate_trigger_def no_listeners_def)
  then show ?thesis
    using e(1) by (simp add: error_rate_trigger_def evaluateTrigger_def)
qed

subsection \<open>Exceptions during validation\<close>

text \<open>With a listener of \<open>error\<close> that returns, every call of \<open>validateDecision\<close> returns a
  result, and an exception of the \<open>try\<close> block becomes the conservative denial.\<close>

lemma validateDecision_catches:
  assumes "emit_throws env ''error'' = None"
  shows "\<exists>r. fst (validateDecision env now rnd d s) = Inr r"
    and "fst (validateDecision_try env now rnd d s) = Inl e \<Longrightarrow>
         fst (validateDecision env now rnd d s) =
           Inr (escalated_denial [Lit ''Validation error occurred'']
                  (snd (validateDecision env now rnd d s)))"
  using assms
  by (cases "validateDecision_try env now rnd d s";
      auto simp add: validateDecision_def emit_def createValidationResult_def
        escalated_denial_def split: sum.splits)+

text \<open>Whatever the listeners do, an exception of the \<open>try\<close> block never ends in an approval.\<close>

lemma validateDecision_never_fails_open:
  "fst (validateDecision_try env now rnd d s) = Inl e \<Longrightarrow>
   \<not> approved_result (fst (validateDecision env now rnd d s))"
  by (cases "validateDecision_try env now rnd d s")
     (auto simp add: validateDecision_def emit_def createValidationResult_def
        approved_result_def split: sum.splits option.splits)

text \<open>
  Claim C9. The \<open>catch\<close> block emits \<open>error\<close> before it builds the denial. With no listener
  of \<open>error\<close> registered (the agent engine registers none on its controller), that emit throws:
  the exception of a throwing \<open>decision_approved\<close> listener is caught, and the call then
  rejects with the unhandled \<open>error\<close> event instead of returning the denial.
\<close>

theorem validateDecision_propagates_exception:
  "fst (validateDecision_try fragile_listeners 0 ''r'' tuning (init AUTONOMOUS example_limits))
     = Inl (ListenerThrew ''decision_approved'')
   \<and> fst (validateDecision fragile_listeners 0 ''r'' tuning (init AUTONOMOUS example_limits))
     = Inl UnhandledErrorEvent"
  by (simp add: tuning_def fragile_listeners_def controller_defs example_defs)

subsection \<open>Approval requests\<close>

lemma string_of_nat_0: "string_of_nat 0 = ''0''"
  by code_simp

lemma waiting_state_eval:
  "pendingApprovals waiting_state = [(''approval_0_abc'', 0)]
   \<and> map r_id (heap waiting_state) = [''approval_0_abc'']
   \<and> map status (heap waiting_state) = [St_pending]
   \<and> map timeout_at (heap waiting_state) = [300000]
   \<and> timers waiting_state = [(''approval_0_abc'', payment 150, 300000)]"
  by (simp add: waiting_state_def requestApproval_def Let_def string_of_nat_0 emit_def
        emit_throws_def example_defs)

lemma timed_out_state_eval:
  "pendingApprovals timed_out_state = [(''approval_0_abc'', 0)]
   \<and> map r_id (heap timed_out_state) = [''approval_0_abc'']
   \<and> map status (heap timed_out_state) = [St_timeout]
   \<and> map timeout_at (heap timed_out_state) = [300000]"
  using waiting_state_eval
  by (cases "heap waiting_state")
     (simp_all add: timed_out_state_def approvalTimeoutCallback_def)

lemma reachable_timed_out_state: "reachable timed_out_state"
proof -
  have w: "reachable waiting_state"
    unfolding waiting_state_def by (rule r_requestApproval) (rule r_init)
  have t: "(''approval_0_abc'', payment 150, 300000) \<in> set (timers waiting_state)"
    using waiting_state_eval by simp
  show ?thesis
    unfolding timed_out_state_def using w t by (rule r_approvalTimeout)
qed


text \<open>\<open>processApprovalResponse\<close> throws, and changes nothing, when the request is not in the
  map or is not pending.\<close>

lemma processApprovalResponse_rejects:
  assumes "map_of (pendingApprovals s) i = None
           \<or> (\<exists>a. map_of (pendingApprovals s) i = Some a \<and> status (heap s ! a) \<noteq> St_pending)"
  shows "processApprovalResponse env now i ok who note s = (Inl InvalidApprovalRequest, s)"
  using assms by (auto simp add: processApprovalResponse_def)

text \<open>A response to a pending request makes it \<open>approved\<close> or \<open>denied\<close>, and a second
  response to the same id throws, whatever the listeners do.\<close>

lemma processApprovalResponse_heap:
  assumes "map_of (pendingApprovals s) i = Some a" and "status (heap s ! a) = St_pending"
    and "a < length (heap s)"
  shows "status (heap (snd (processApprovalResponse env now i ok who note s)) ! a)
           = (if ok then St_approved else St_denied)"
    and "map_of (pendingApprovals (snd (processApprovalResponse env now i ok who note s))) i
           = (if fst (processApprovalResponse env now i ok who note s) = Inr () then None
              else Some a)"
proof -
  have h: "heap (snd (recordApprovedDecision env now d' s')) = heap s'"
    "pendingApprovals (snd (recordApprovedDecision env now d' s')) = pendingApprovals s'"
    for d' s'
    by (simp_all add: recordApprovedDecision_def Let_def)
  have u: "heap (updateApprovalRate b s') = heap s'"
    "pendingApprovals (updateApprovalRate b s') = pendingApprovals s'" for b s'
    by (simp_all add: updateApprovalRate_def Let_def)
  show "status (heap (snd (processApprovalResponse env now i ok who note s)) ! a)
           = (if ok then St_approved else St_denied)"
    using assms
    by (simp add: processApprovalResponse_def Let_def emit_def h u split: option.splits)
  show "map_of (pendingApprovals (snd (processApprovalResponse env now i ok who note s))) i
           = (if fst (processApprovalResponse env now i ok who note s) = Inr () then None
              else Some a)"
    using assms
    by (simp add: processApprovalResponse_def Let_def emit_def h u AList.delete_conv
          split: option.splits)
qed

lemma processApprovalResponse_twice:
  assumes "\<forall>a. map_of (pendingApprovals s) i = Some a \<longrightarrow> a < length (heap s)"
  shows "fst (processApprovalResponse env' now' i ok' who' note'
                (snd (processApprovalResponse env now i ok who note s)))
           = Inl InvalidApprovalRequest"
proof (cases "map_of (pendingApprovals s) i")
  case None
  then show ?thesis by (simp add: processApprovalResponse_rejects)
next
  case (Some a)
  show ?thesis
  proof (cases "status (heap s ! a) = St_pending")
    case False
    with Some show ?thesis by (simp add: processApprovalResponse_rejects)
  next
    case True
    let ?s' = "snd (processApprovalResponse env now i ok who note s)"
    from assms Some have l: "a < length (heap s)" by blast
    note p = processApprovalResponse_heap [OF Some True l, of env now ok who "note"]
    have "map_of (pendingApprovals ?s') i = None
           \<or> (\<exists>b. map_of (pendingApprovals ?s') i = Some b \<and> status (heap ?s' ! b) \<noteq> St_pending)"
      using p by (auto split: if_splits)
    then show ?thesis by (simp add: processApprovalResponse_rejects)
  qed
qed

text \<open>
  Claim C2. \<open>processApprovalResponse\<close> does reject a request that is missing or not pending
  (the lemmas above), but a terminal status can still change: the timeout callback leaves
  the timed-out request in \<open>pendingApprovals\<close>, and \<open>triggerEmergencyStop\<close> sets the status of
  every request in that map to \<open>denied\<close> without looking at it. The request of
  \<open>timed_out_state\<close>, whose status is \<open>timeout\<close>, is \<open>denied\<close> after an emergency stop.
\<close>

theorem terminal_status_overwritten:
  "reachable stopped_state
   \<and> map r_id (heap timed_out_state) = [''approval_0_abc'']
   \<and> map status (heap timed_out_state) = [St_timeout]
   \<and> map r_id (heap stopped_state) = [''approval_0_abc'']
   \<and> map status (heap stopped_state) = [St_denied]"
proof -
  have r: "reachable stopped_state"
    unfolding stopped_state_def
    by (rule r_triggerEmergencyStop) (rule reachable_timed_out_state)
  have "map r_id (heap stopped_state) = [''approval_0_abc'']
        \<and> map status (heap stopped_state) = [St_denied]"
    using timed_out_state_eval
    by (cases "heap timed_out_state")
       (simp_all add: stopped_state_def triggerEmergencyStop_def updateAutonomyLevel_def
          adjustLimitsForLevel_def Let_def emit_def emit_throws_def no_listeners_def)
  with r timed_out_state_eval show ?thesis by simp
qed

text \<open>The sweep never removes a request that is not pending, at whatever time it runs:
  such an entry of the map, and the status of its request, are the same afterwards.\<close>

lemma expireLoop_keeps:
  assumes "distinct (map fst xs)" and "set xs \<subseteq> set (pendingApprovals s)"
    and "distinct (map fst (pendingApprovals s))"
    and "(j, b) \<in> set (pendingApprovals s)" and "status (heap s ! b) \<noteq> St_pending"
  shows "(j, b) \<in> set (pendingApprovals (snd (expireLoop env now xs s)))
         \<and> status (heap (snd (expireLoop env now xs s)) ! b) = status (heap s ! b)"
  using assms
proof (induction xs arbitrary: s)
  case Nil
  then show ?case by simp
next
  case (Cons x xs)
  obtain i a where x: "x = (i, a)" by (cases x)
  show ?case
  proof (cases "timeout_at (heap s ! a) < real now \<and> status (heap s ! a) = St_pending")
    case False
    have "(j, b) \<in> set (pendingApprovals (snd (expireLoop env now xs s)))
         \<and> status (heap (snd (expireLoop env now xs s)) ! b) = status (heap s ! b)"
      using Cons.prems by (intro Cons.IH) auto
    with False show ?thesis by (auto simp add: x)
  next
    case True
    let ?s1 = "s\<lparr>heap := (heap s)[a := (heap s ! a)\<lparr>status := St_timeout\<rparr>],
                 pendingApprovals := AList.delete i (pendingApprovals s),
                 emitted := emitted s @ [Ev_approval_timeout i (decision (heap s ! a))]\<rparr>"
    have ab: "a \<noteq> b" using True Cons.prems(5) by auto
    have ia: "(i, a) \<in> set (pendingApprovals s)" using Cons.prems(2) by (simp add: x)
    have ij: "i \<noteq> j"
    proof
      assume "i = j"
      with ia Cons.prems(3,4) have "a = b" by (meson eq_key_imp_eq_value)
      with ab show False by simp
    qed
    have keys: "\<forall>p \<in> set xs. fst p \<noteq> i" using Cons.prems(1) by (auto simp add: x)
    have 1: "distinct (map fst xs)" using Cons.prems(1) by simp
    have 2: "set xs \<subseteq> set (pendingApprovals ?s1)"
      using Cons.prems(2) keys by (auto simp add: AList.delete_eq)
    have 3: "distinct (map fst (pendingApprovals ?s1))"
      using Cons.prems(3) by (simp add: AList.distinct_delete)
    have 4: "(j, b) \<in> set (pendingApprovals ?s1)"
      using Cons.prems(4) ij by (auto simp add: AList.delete_eq)
    have 5: "status (heap ?s1 ! b) \<noteq> St_pending"
      using Cons.prems(5) ab by simp
    have hb: "status (heap ?s1 ! b) = status (heap s ! b)" using ab by simp
    note ih = Cons.IH [OF 1 2 3 4 5]
    show ?thesis
      using True ih 4 hb
      by (simp add: x emit_def split: option.splits)
  qed
qed

lemma expireApprovals_keeps:
  assumes "distinct (map fst (pendingApprovals s))"
    and "(j, b) \<in> set (pendingApprovals s)" and "status (heap s ! b) \<noteq> St_pending"
  shows "(j, b) \<in> set (pendingApprovals (snd (expireApprovals env now s)))
         \<and> status (heap (snd (expireApprovals env now s)) ! b) = status (heap s ! b)"
  unfolding expireApprovals_def
  using assms by (intro expireLoop_keeps) auto

text \<open>
  Claim C10. After the timeout callback the request has status \<open>timeout\<close>, stays in the map
  and is returned by \<open>getPendingApprovals\<close>, and a response to it is rejected. The minute sweep
  does not remove it: it only looks at requests that are still \<open>pending\<close>. At time 360000,
  past the deadline 300000, the sweep leaves the map as it is.
\<close>

theorem timed_out_request_never_swept:
  "map status (getPendingApprovals timed_out_state) = [St_timeout]
   \<and> map timeout_at (getPendingApprovals timed_out_state) = [300000]
   \<and> fst (processApprovalResponse no_listeners 360000 ''approval_0_abc'' True ''owner'' None
            timed_out_state) = Inl InvalidApprovalRequest
   \<and> expireApprovals no_listeners 360000 timed_out_state = (Inr (), timed_out_state)
   \<and> map status (getPendingApprovals (snd (expireApprovals no_listeners 360000 timed_out_state)))
       = [St_timeout]"
proof -
  have g: "map status (getPendingApprovals timed_out_state) = [St_timeout]
           \<and> map timeout_at (getPendingApprovals timed_out_state) = [300000]"
    using timed_out_state_eval
    by (cases "heap timed_out_state") (simp_all add: getPendingApprovals_def)
  have s: "status (heap timed_out_state ! 0) = St_timeout"
    using timed_out_state_eval by (cases "heap timed_out_state") simp_all
  have p: "fst (processApprovalResponse no_listeners 360000 ''approval_0_abc'' True ''owner'' None
            timed_out_state) = Inl InvalidApprovalRequest"
    using timed_out_state_eval s by (simp add: processApprovalResponse_def)
  have e: "expireApprovals no_listeners 360000 timed_out_state = (Inr (), timed_out_state)"
    using timed_out_state_eval s by (simp add: expireApprovals_def)
  from g p e show ?thesis by simp
qed

subsection \<open>The store of approval requests is well formed in every reachable state\<close>

lemma pending_wf_sub:
  assumes "pending_wf s" and "length (heap s') = length (heap s)"
    and "distinct (map fst (pendingApprovals s'))"
    and "set (pendingApprovals s') \<subseteq> set (pendingApprovals s)"
  shows "pending_wf s'"
  using assms by (auto simp add: pending_wf_def)

lemma pending_wf_same:
  assumes "pending_wf s" and "length (heap s') = length (heap s)"
    and "pendingApprovals s' = pendingApprovals s"
  shows "pending_wf s'"
  using assms by (simp add: pending_wf_def)

lemma pending_wf_delete:
  assumes "pending_wf s" and "length (heap s') = length (heap s)"
    and "pendingApprovals s' = AList.delete i (pendingApprovals s)"
  shows "pending_wf s'"
proof -
  have d: "distinct (map fst (AList.delete i (pendingApprovals s)))"
    using assms(1) by (simp add: pending_wf_def AList.distinct_delete)
  have m: "set (AList.delete i (pendingApprovals s)) \<subseteq> set (pendingApprovals s)"
    by (auto simp add: AList.delete_eq)
  from assms d m show ?thesis by (intro pending_wf_sub [of s s']) simp_all
qed

lemma update_values: "set (AList.update k v al) \<subseteq> insert (k, v) (set al)"
  by (induction al) auto

lemma adjustLimitsForLevel_store [simp]:
  "heap (adjustLimitsForLevel l s) = heap s"
  "pendingApprovals (adjustLimitsForLevel l s) = pendingApprovals s"
  by (cases l; simp add: adjustLimitsForLevel_def Let_def)+

lemma updateAutonomyLevel_store [simp]:
  "heap (snd (updateAutonomyLevel env now l why s)) = heap s"
  "pendingApprovals (snd (updateAutonomyLevel env now l why s)) = pendingApprovals s"
  by (simp_all add: updateAutonomyLevel_def Let_def emit_def split: option.splits)

lemma recordViolation_store [simp]:
  "heap (snd (recordViolation env v s)) = heap s"
  "pendingApprovals (snd (recordViolation env v s)) = pendingApprovals s"
  by (simp_all add: recordViolation_def emit_def split: option.splits)

lemma cancelPending_store [simp]:
  "pendingApprovals (snd (cancelPending env xs s)) = pendingApprovals s"
  "length (heap (snd (cancelPending env xs s))) = length (heap s)"
proof (induction xs arbitrary: s)
  case Nil
  {
    case 1
    show ?case by simp
  next
    case 2
    show ?case by simp
  }
next
  case (Cons x xs)
  obtain i a where x: "x = (i, a)" by (cases x)
  {
    case 1
    show ?case by (simp add: x emit_def Cons.IH split: option.splits)
  next
    case 2
    show ?case by (simp add: x emit_def Cons.IH split: option.splits)
  }
qed




lemma outcome_case:
  "(case p of (Inl e, s1) \<Rightarrow> f e s1 | (Inr u, s1) \<Rightarrow> g u s1)
     = (case fst p of Inl e \<Rightarrow> f e (snd p) | Inr u \<Rightarrow> g u (snd p))"
  by (cases p; cases "fst p") auto

lemma triggerEmergencyStop_store:
  "length (heap (snd (triggerEmergencyStop env now why s))) = length (heap s)"
  "pendingApprovals (snd (triggerEmergencyStop env now why s)) = pendingApprovals s
   \<or> pendingApprovals (snd (triggerEmergencyStop env now why s)) = []"
  by (simp_all add: triggerEmergencyStop_def outcome_case split: sum.splits)




lemma pending_wf_triggerEmergencyStop:
  assumes "pending_wf s"
  shows "pending_wf (snd (triggerEmergencyStop env now why s))"
  using triggerEmergencyStop_store(2) [of env now why s]
proof
  assume "pendingApprovals (snd (triggerEmergencyStop env now why s)) = pendingApprovals s"
  with assms triggerEmergencyStop_store(1) [of env now why s] show ?thesis
    by (simp add: pending_wf_def)
next
  assume "pendingApprovals (snd (triggerEmergencyStop env now why s)) = []"
  with assms triggerEmergencyStop_store(1) [of env now why s] show ?thesis
    by (simp add: pending_wf_def)
qed

lemma pending_wf_updateAutonomyLevel:
  "pending_wf s \<Longrightarrow> pending_wf (snd (updateAutonomyLevel env now l why s))"
  by (rule pending_wf_same [of s]) simp_all

lemma pending_wf_recordViolation:
  "pending_wf s \<Longrightarrow> pending_wf (snd (recordViolation env v s))"
  by (rule pending_wf_same [of s]) simp_all

lemma pending_wf_requestApproval:
  assumes "pending_wf s"
  shows "pending_wf (snd (requestApproval env now rnd d s))"
proof -
  let ?i = "''approval_'' @ string_of_nat now @ ''_'' @ rnd"
  let ?al = "AList.update ?i (length (heap s)) (pendingApprovals s)"
  have h: "heap (snd (requestApproval env now rnd d s)) = heap s @
             [\<lparr>r_id = ?i, decision = d, requested_at = real now,
               timeout_at = real now + approval_timeout (config s) * 1000,
               status = St_pending, approver = None, response_time = None,
               r_notes = None\<rparr>]"
    and p: "pendingApprovals (snd (requestApproval env now rnd d s)) = ?al"
    by (simp_all add: requestApproval_def Let_def emit_def split: option.splits)
  have d: "distinct (map fst ?al)"
    using assms by (simp add: pending_wf_def AList.distinct_update)
  have "\<forall>q \<in> set ?al. snd q < Suc (length (heap s))"
  proof
    fix q assume "q \<in> set ?al"
    with update_values [of ?i "length (heap s)" "pendingApprovals s"]
    have "q = (?i, length (heap s)) \<or> q \<in> set (pendingApprovals s)" by auto
    then show "snd q < Suc (length (heap s))"
      using assms by (auto simp add: pending_wf_def less_Suc_eq)
  qed
  with d show ?thesis by (simp add: pending_wf_def h p)
qed

lemma approvalTimeoutCallback_store [simp]:
  "pendingApprovals (snd (approvalTimeoutCallback env i d s)) = pendingApprovals s"
  "length (heap (snd (approvalTimeoutCallback env i d s))) = length (heap s)"
  by (simp_all add: approvalTimeoutCallback_def split: option.splits)

lemma pending_wf_approvalTimeoutCallback:
  "pending_wf s \<Longrightarrow> pending_wf (snd (approvalTimeoutCallback env i d s))"
  by (rule pending_wf_same [of s]) simp_all

lemma recordApprovedDecision_store [simp]:
  "heap (snd (recordApprovedDecision env now d s)) = heap s"
  "pendingApprovals (snd (recordApprovedDecision env now d s)) = pendingApprovals s"
  by (simp_all add: recordApprovedDecision_def Let_def)

lemma pending_wf_recordApprovedDecision:
  "pending_wf s \<Longrightarrow> pending_wf (snd (recordApprovedDecision env now d s))"
  by (rule pending_wf_same [of s]) simp_all

lemma updateApprovalRate_store [simp]:
  "heap (updateApprovalRate b s) = heap s"
  "pendingApprovals (updateApprovalRate b s) = pendingApprovals s"
  by (simp_all add: updateApprovalRate_def Let_def)


lemma processApprovalResponse_store:
  "length (heap (snd (processApprovalResponse env now i ok who note s))) = length (heap s)"
  "pendingApprovals (snd (processApprovalResponse env now i ok who note s))
         = pendingApprovals s
       \<or> pendingApprovals (snd (processApprovalResponse env now i ok who note s))
         = AList.delete i (pendingApprovals s)"
  by (cases ok; simp add: processApprovalResponse_def Let_def outcome_case
        split: option.splits sum.splits)+

lemma pending_wf_processApprovalResponse:
  assumes "pending_wf s"
  shows "pending_wf (snd (processApprovalResponse env now i ok who note s))"
  using processApprovalResponse_store(2) [of env now i ok who "note" s]
proof
  assume "pendingApprovals (snd (processApprovalResponse env now i ok who note s))
            = pendingApprovals s"
  with assms processApprovalResponse_store(1) [of env now i ok who "note" s] show ?thesis
    by (simp add: pending_wf_def)
next
  assume "pendingApprovals (snd (processApprovalResponse env now i ok who note s))
            = AList.delete i (pendingApprovals s)"
  with assms processApprovalResponse_store(1) [of env now i ok who "note" s] show ?thesis
    by (rule pending_wf_delete [where i = i])
qed

lemma pending_wf_metrics [simp]: "pending_wf (s\<lparr>metrics := x\<rparr>) = pending_wf s"
  by (simp add: pending_wf_def)

lemma pending_wf_emitted [simp]: "pending_wf (s\<lparr>emitted := x\<rparr>) = pending_wf s"
  by (simp add: pending_wf_def)

lemma pending_wf_executeEscalationAction:
  assumes "pending_wf s"
  shows "pending_wf (snd (executeEscalationAction env now rnd t d s))"
proof -
  let ?s1 = "s\<lparr>metrics := (metrics s)\<lparr>escalations := Suc (escalations (metrics s))\<rparr>\<rparr>"
  have 1: "pending_wf ?s1" using assms by simp
  show ?thesis
    using pending_wf_triggerEmergencyStop [OF 1] pending_wf_requestApproval [OF 1]
      pending_wf_updateAutonomyLevel [OF 1] pending_wf_recordViolation [OF 1] 1
    by (cases "action t") (simp_all add: executeEscalationAction_def Let_def)
qed

lemma pending_wf_checkEscalationTriggers:
  assumes "pending_wf s"
  shows "pending_wf (snd (checkEscalationTriggers env now rnd d s))"
  using assms pending_wf_executeEscalationAction [OF assms]
  by (simp add: checkEscalationTriggers_def outcome_case split: option.splits sum.splits)

lemma pending_wf_validateContent:
  assumes "pending_wf s"
  shows "pending_wf (snd (validateContent env now d s))"
  using assms pending_wf_recordViolation [OF assms]
  by (simp add: validateContent_def outcome_case split: option.splits sum.splits)

lemma pending_wf_validateDecision_rest:
  assumes "pending_wf s"
  shows "pending_wf (snd (validateDecision_rest env now rnd d s))"
  using assms pending_wf_checkEscalationTriggers [OF assms]
    pending_wf_recordApprovedDecision
      [OF pending_wf_checkEscalationTriggers [OF assms, of env now rnd d], of env now d]
  by (simp add: validateDecision_rest_def Let_def outcome_case split: sum.splits)

lemma pending_wf_validateDecision_try:
  assumes "pending_wf s"
  shows "pending_wf (snd (validateDecision_try env now rnd d s))"
proof -
  have 0: "pending_wf (noted d s)" using assms by (simp add: noted_def pending_wf_def)
  note c = pending_wf_validateContent [OF 0, of env now d]
  note r1 = pending_wf_validateDecision_rest [OF c, of env now rnd d]
  note r2 = pending_wf_validateDecision_rest [OF 0, of env now rnd d]
  have "validateDecision_try env now rnd d s =
     (let s' = noted d s
      in if \<not> isDecisionTypeAllowed s' (d_type d) then
           (Inr (createValidationResult False
                   (Some [Lit ''Decision type not allowed at current autonomy level''])
                   (Some True) s'),
            s')
         else if d_type d = FINANCIAL_TRANSACTION \<and> truthy_num (estimated_cost d)
                 \<and> \<not> approved (validateSpending env d s') then
           (Inr (validateSpending env d s'), s')
         else if d_type d = PLATFORM_INTERACTION
                 \<and> \<not> approved (validateInteractionLimits now d s') then
           (Inr (validateInteractionLimits now d s'), s')
         else if d_type d = CONTENT_CREATION then
           (case validateContent env now d s' of
              (Inl e, s1) \<Rightarrow> (Inl e, s1)
            | (Inr contentCheck, s1) \<Rightarrow>
                if \<not> approved contentCheck then (Inr contentCheck, s1)
                else validateDecision_rest env now rnd d s1)
         else validateDecision_rest env now rnd d s')"
    by (simp add: validateDecision_try_def noted_def)
  then show ?thesis
    using 0 c r1 r2
    by (simp add: Let_def outcome_case split: sum.splits)
qed

lemma pending_wf_validateDecision:
  assumes "pending_wf s"
  shows "pending_wf (snd (validateDecision env now rnd d s))"
  using pending_wf_validateDecision_try [OF assms, of env now rnd d]
  by (simp add: validateDecision_def outcome_case split: sum.splits)

lemma pending_wf_expireLoop:
  "pending_wf s \<Longrightarrow> pending_wf (snd (expireLoop env now xs s))"
proof (induction xs arbitrary: s)
  case Nil
  then show ?case by simp
next
  case (Cons x xs)
  obtain i a where x: "x = (i, a)" by (cases x)
  let ?s1 = "s\<lparr>heap := (heap s)[a := (heap s ! a)\<lparr>status := St_timeout\<rparr>],
                 pendingApprovals := AList.delete i (pendingApprovals s),
                 emitted := emitted s @ [Ev_approval_timeout i (decision (heap s ! a))]\<rparr>"
  have "pending_wf ?s1"
    using Cons.prems by (rule pending_wf_delete [where i = i]) simp_all
  from Cons.IH [OF this] Cons.IH [OF Cons.prems] this show ?case
    by (simp add: x emit_def split: option.splits)
qed

lemma pending_wf_reachable: "reachable s \<Longrightarrow> pending_wf s"
proof (induction rule: reachable.induct)
  case (r_init l spendingLimits)
  show ?case by (simp add: init_def pending_wf_def)
next
  case (r_getMetrics s)
  then show ?case by (simp add: getMetrics_def Let_def)
next
  case (r_approvalTimeout s i d due env)
  have "pending_wf (s\<lparr>timers := remove1 (i, d, due) (timers s)\<rparr>)"
    using r_approvalTimeout.IH by (simp add: pending_wf_def)
  then show ?case by (rule pending_wf_approvalTimeoutCallback)
next
  case (r_updateSpendingLimits s env newLimits)
  then show ?case by (simp add: updateSpendingLimits_def Let_def pending_wf_def)
next
  case (r_updateInteractionRules s env newRules)
  then show ?case by (simp add: updateInteractionRules_def Let_def pending_wf_def)
next
  case (r_addEscalationTrigger s env t)
  then show ?case by (simp add: addEscalationTrigger_def pending_wf_def)
next
  case (r_removeEscalationTrigger s env tt)
  then show ?case by (simp add: removeEscalationTrigger_def pending_wf_def)
next
  case (r_resetDailySpending s)
  then show ?case by (simp add: resetDailySpending_def pending_wf_def)
next
  case (r_cleanInteractionCounts s now)
  then show ?case by (simp add: cleanInteractionCounts_def Let_def pending_wf_def)
qed (simp_all add: pending_wf_validateDecision pending_wf_requestApproval
      pending_wf_processApprovalResponse pending_wf_updateAutonomyLevel
      pending_wf_triggerEmergencyStop pending_wf_expireLoop expireApprovals_def)


text \<open>In a reachable state a second response to the same request id always throws, and
  the sweep keeps every request that is not pending.\<close>

lemma processApprovalResponse_twice_reachable:
  assumes "reachable s"
  shows "fst (processApprovalResponse env' now' i ok' who' note'
                (snd (processApprovalResponse env now i ok who note s)))
           = Inl InvalidApprovalRequest"
proof -
  have "\<forall>a. map_of (pendingApprovals s) i = Some a \<longrightarrow> a < length (heap s)"
    using pending_wf_reachable [OF assms] by (auto simp add: pending_wf_def dest: map_of_SomeD)
  then show ?thesis by (rule processApprovalResponse_twice)
qed

lemma expireApprovals_keeps_reachable:
  assumes "reachable s" and "(j, b) \<in> set (pendingApprovals s)"
    and "status (heap s ! b) \<noteq> St_pending"
  shows "(j, b) \<in> set (pendingApprovals (snd (expireApprovals env now s)))
         \<and> status (heap (snd (expireApprovals env now s)) ! b) = status (heap s ! b)"
  using pending_wf_reachable [OF assms(1)] assms(2,3)
  by (intro expireApprovals_keeps) (simp_all add: pending_wf_def)

subsection \<open>The platform's addition and case conversion at work\<close>

text \<open>Where the platform's sum of \<open>2 ^ 53\<close> and 1 is \<open>2 ^ 53\<close>, a payment of 1 against a ledger
  of \<open>2 ^ 53\<close> and a daily limit of \<open>2 ^ 53\<close> passes the spending check, and committing it
  leaves the ledger at \<open>2 ^ 53\<close>.\<close>

lemma rounded_sum_example:
  "approved (validateSpending absorbing_add (payment 1) large_ledger)
   \<and> currentSpending (snd (recordApprovedDecision absorbing_add 0 (payment 1) large_ledger))
       = [(''SEI'', 2 ^ 53)]"
  by (simp add: absorbing_add_def large_limits_def large_ledger_def validateSpending_def
        recordApprovedDecision_def createValidationResult_def payment_def example_decision_def
        init_def num_or_zero_def str_or_def truthy_num_def truthy_str_def Let_def)

text \<open>Where \<open>toLowerCase\<close> folds the accented capital, the entry that matches first is the
  accented capital, before \<open>spam\<close>.\<close>

lemma e_acute_toLowerCase_examples:
  "e_acute_toLowerCase
     [CHR 0xC3, CHR 0xA9, CHR '' '', CHR ''s'', CHR ''p'', CHR ''a'', CHR ''m'']
     = [CHR 0xC3, CHR 0xA9, CHR '' '', CHR ''s'', CHR ''p'', CHR ''a'', CHR ''m'']"
  "e_acute_toLowerCase [CHR 0xC3, CHR 0x89] = [CHR 0xC3, CHR 0xA9]"
  "e_acute_toLowerCase ''spam'' = ''spam''"
  by code_simp+

lemma unicode_match_example:
  "first_forbidden e_acute_env e_acute_post e_acute_state = Some [CHR 0xC3, CHR 0x89]"
  by (simp add: first_forbidden_def e_acute_env_def e_acute_post_def e_acute_state_def
        e_acute_rules_def updateInteractionRules_def spread_def example_decision_def init_def
        getDefaultInteractionRules_def Let_def e_acute_toLowerCase_examples
      del: e_acute_toLowerCase.simps)

end
